theory Spec2Isabelle
  imports Complex_Main "HOL-Library.AList" "HOL-Library.Product_Lexorder"
begin

section \<open>Numeric values\<close>

text \<open>
  NumPy's float64 values are modelled by their four classes: not-a-number, the two
  infinities and the finite values. Finite values are real numbers and finite arithmetic
  is exact (no rounding, no overflow, no signed zero); the special values follow IEEE 754.
\<close>

datatype fl = NaN | PInf | NInf | Fin real

fun fl_neg :: "fl \<Rightarrow> fl" where
  "fl_neg NaN = NaN"
| "fl_neg PInf = NInf"
| "fl_neg NInf = PInf"
| "fl_neg (Fin a) = Fin (- a)"

fun fl_add :: "fl \<Rightarrow> fl \<Rightarrow> fl" where
  "fl_add (Fin a) (Fin b) = Fin (a + b)"
| "fl_add NaN y = NaN"
| "fl_add x NaN = NaN"
| "fl_add PInf NInf = NaN"
| "fl_add NInf PInf = NaN"
| "fl_add PInf y = PInf"
| "fl_add NInf y = NInf"
| "fl_add (Fin a) y = y"

definition fl_sub :: "fl \<Rightarrow> fl \<Rightarrow> fl" where
  "fl_sub x y = fl_add x (fl_neg y)"

text \<open>The sign of a value that is not NaN: -1, 0 or 1.\<close>

fun fl_sgn :: "fl \<Rightarrow> int" where
  "fl_sgn NaN = 0"
| "fl_sgn PInf = 1"
| "fl_sgn NInf = - 1"
| "fl_sgn (Fin a) = (if a < 0 then - 1 else if a = 0 then 0 else 1)"

definition fl_inf :: "int \<Rightarrow> fl" where
  "fl_inf s = (if s = 0 then NaN else if s < 0 then NInf else PInf)"

fun fl_mul :: "fl \<Rightarrow> fl \<Rightarrow> fl" where
  "fl_mul (Fin a) (Fin b) = Fin (a * b)"
| "fl_mul NaN y = NaN"
| "fl_mul x NaN = NaN"
| "fl_mul x y = fl_inf (fl_sgn x * fl_sgn y)"

text \<open>
  Division of arrays never raises in NumPy: a finite non-zero value over zero is an
  infinity, zero over zero is NaN (a RuntimeWarning is printed, which is not modelled).
\<close>

fun fl_div :: "fl \<Rightarrow> fl \<Rightarrow> fl" where
  "fl_div (Fin a) (Fin b) = (if b = 0 then fl_inf (fl_sgn (Fin a)) else Fin (a / b))"
| "fl_div NaN y = NaN"
| "fl_div x NaN = NaN"
| "fl_div (Fin a) y = Fin 0"
| "fl_div x (Fin b) = fl_inf (fl_sgn x * (if b < 0 then - 1 else 1))"
| "fl_div x y = NaN"

fun fl_log :: "fl \<Rightarrow> fl" where
  "fl_log NaN = NaN"
| "fl_log PInf = PInf"
| "fl_log NInf = NaN"
| "fl_log (Fin a) = (if a < 0 then NaN else if a = 0 then NInf else Fin (ln a))"

fun fl_sqrt :: "fl \<Rightarrow> fl" where
  "fl_sqrt NaN = NaN"
| "fl_sqrt PInf = PInf"
| "fl_sqrt NInf = NaN"
| "fl_sqrt (Fin a) = (if a < 0 then NaN else Fin (sqrt a))"

text \<open>Comparison; every comparison with NaN is false.\<close>

fun fl_le :: "fl \<Rightarrow> fl \<Rightarrow> bool" where
  "fl_le NaN y = False"
| "fl_le x NaN = False"
| "fl_le NInf y = True"
| "fl_le x PInf = True"
| "fl_le (Fin a) (Fin b) = (a \<le> b)"
| "fl_le x y = False"

definition isnan :: "fl \<Rightarrow> bool" where
  "isnan x = (x = NaN)"

text \<open>\<open>np.maximum\<close> and \<open>np.minimum\<close> return NaN when one argument is NaN.\<close>

definition fl_max :: "fl \<Rightarrow> fl \<Rightarrow> fl" where
  "fl_max x y = (if isnan x \<or> isnan y then NaN else if fl_le x y then y else x)"

definition fl_min :: "fl \<Rightarrow> fl \<Rightarrow> fl" where
  "fl_min x y = (if isnan x \<or> isnan y then NaN else if fl_le x y then x else y)"

section \<open>NumPy and pandas operations used by the estimators\<close>

datatype error = IndexError | TypeError | ValueError | ZeroDivisionError

text \<open>\<open>np.diff\<close> of a one-dimensional array: \<open>a[1:] - a[:-1]\<close>.\<close>

definition np_diff :: "int list \<Rightarrow> int list" where
  "np_diff a = map (\<lambda>(x, y). y - x) (zip (butlast a) (tl a))"

text \<open>\<open>np.sum\<close> of a float array (0.0 for the empty array).\<close>

definition np_sum :: "fl list \<Rightarrow> fl" where
  "np_sum a = foldr fl_add a (Fin 0)"

text \<open>
  \<open>np.max\<close> and \<open>np.min\<close> reduce with \<open>np.maximum\<close> and \<open>np.minimum\<close>; on
  an empty array they raise ValueError.
\<close>

fun np_max :: "fl list \<Rightarrow> error + fl" where
  "np_max [] = Inl ValueError"
| "np_max (x # xs) = Inr (fold (\<lambda>y m. fl_max m y) xs x)"

fun np_min :: "fl list \<Rightarrow> error + fl" where
  "np_min [] = Inl ValueError"
| "np_min (x # xs) = Inr (fold (\<lambda>y m. fl_min m y) xs x)"

text \<open>
  \<open>np.nanmean\<close>: NaN entries are replaced by zero, the sum is divided by the number of
  entries that are not NaN (NaN when there is none).
\<close>

definition replace_nan :: "fl list \<Rightarrow> fl list" where
  "replace_nan a = map (\<lambda>x. if isnan x then Fin 0 else x) a"

definition count_notnan :: "fl list \<Rightarrow> nat" where
  "count_notnan a = length (filter (\<lambda>x. \<not> isnan x) a)"

definition np_nanmean :: "fl list \<Rightarrow> fl" where
  "np_nanmean a = fl_div (np_sum (replace_nan a)) (Fin (real (count_notnan a)))"

text \<open>
  \<open>np.nanvar\<close> and \<open>np.nanstd\<close> with \<open>ddof\<close>: the mean is subtracted from the
  zero-filled array, the entries that were NaN are set to zero again, the squares are
  summed and divided by the count minus \<open>ddof\<close>; the result is NaN when that divisor
  is not positive.
\<close>

definition np_nanvar :: "fl list \<Rightarrow> int \<Rightarrow> fl" where
  "np_nanvar a ddof =
     (let arr = replace_nan a;
          cnt = int (count_notnan a);
          avg = fl_div (np_sum arr) (Fin (real_of_int cnt));
          dev = map (\<lambda>(x, m). if m then Fin 0 else fl_sub x avg) (zip arr (map isnan a));
          sqr = map (\<lambda>d. fl_mul d d) dev;
          dof = cnt - ddof
      in if dof \<le> 0 then NaN else fl_div (np_sum sqr) (Fin (real_of_int dof)))"

definition np_nanstd :: "fl list \<Rightarrow> int \<Rightarrow> fl" where
  "np_nanstd a ddof = fl_sqrt (np_nanvar a ddof)"

section \<open>Python values returned by the estimators\<close>

datatype pyval =
    PNone
  | PInt int
  | PFloat fl
  | PArray "fl list"
  | PDict "(string \<times> pyval) list"
  | PFrame "(string \<times> fl list) list"

text \<open>\<open>d[k] = v\<close> on a dictionary kept in insertion order.\<close>

definition dict_set :: "(string \<times> pyval) list \<Rightarrow> string \<Rightarrow> pyval \<Rightarrow> (string \<times> pyval) list" where
  "dict_set d k v = AList.update k v d"

text \<open>
  Indexing an array with a boolean mask: the selected entries. An empty mask selects
  nothing from any array; otherwise IndexError is raised when the mask and the array
  differ in length.
\<close>

definition bool_index :: "'a list \<Rightarrow> bool list \<Rightarrow> error + 'a list" where
  "bool_index a msk =
     (if msk = [] then Inr []
      else if length a \<noteq> length msk then Inl IndexError
      else Inr (map fst (filter snd (zip a msk))))"

section \<open>External collaborators\<close>

text \<open>
  The signal utilities and the linear algebra library are not part of the verified code:
  they are parameters of the model. Each may raise.
  \<^item> \<open>signal_interpolate x_values y_values x_new method\<close>, where \<open>x_new\<close> is an
    array of positions or a number of samples, and \<open>method\<close> is \<open>None\<close> when the
    caller leaves it to its default;
  \<^item> \<open>signal_resample signal sampling_rate desired_sampling_rate\<close>;
  \<^item> \<open>signal_filter signal sampling_rate call\<close>, where \<open>call\<close> holds the keyword
    arguments that the caller passes (\<open>None\<close> for one it leaves to its default);
  \<^item> \<open>hrv_get_rri rpeaks sampling_rate\<close> with \<open>interpolate=True\<close>: the interpolated
    RR-interval series and its sampling rate;
  \<^item> \<open>signal_timefrequency signal sampling_rate min_frequency max_frequency window
    window_type overlap\<close> with \<open>method="stft"\<close>: the segment times and the power
    spectrogram, one row per frequency, one column per segment;
  \<^item> \<open>peak_matched_eig nperseg window_number\<close>: the matrix \<open>F\<close> (as its list of
    columns) and the diagonal \<open>RD\<close> that \<open>_get_multipeak_window\<close> computes with
    \<open>scipy.linalg\<close> before it sorts and normalises them; \<open>F\<close> is square of size
    \<open>nperseg\<close> and \<open>RD\<close> has \<open>nperseg\<close> entries.
\<close>

datatype x_new = XArray "int list" | XLength int

record filter_call =
  lowcut :: "real option"
  highcut :: "real option"
  filter_method :: "string option"
  order :: "int option"
  window_size :: "int option"

record collaborators =
  signal_interpolate :: "int list \<Rightarrow> fl list \<Rightarrow> x_new \<Rightarrow> string option \<Rightarrow> error + fl list"
  signal_resample :: "fl list \<Rightarrow> real \<Rightarrow> real \<Rightarrow> error + fl list"
  signal_filter :: "fl list \<Rightarrow> real \<Rightarrow> filter_call \<Rightarrow> error + fl list"
  hrv_get_rri :: "int list \<Rightarrow> real \<Rightarrow> error + (fl list \<times> real)"
  signal_timefrequency ::
    "fl list \<Rightarrow> real \<Rightarrow> real \<Rightarrow> real \<Rightarrow> int \<Rightarrow> fl list \<Rightarrow> int \<Rightarrow> error + (fl list \<times> fl list list)"
  peak_matched_eig :: "int \<Rightarrow> int \<Rightarrow> error + (fl list list \<times> fl list)"

section \<open>Peak-to-trough estimator\<close>

text \<open>
  The first loop of \<open>_hrv_rsa_p2t\<close>: for every index below \<open>len(rsp_onsets) - 1\<close>
  the R-peaks between this onset (included) and the next one (excluded).
\<close>

definition p2t_cycles_rri :: "int list \<Rightarrow> int list \<Rightarrow> int list list" where
  "p2t_cycles_rri rsp_onsets rpeaks =
     map (\<lambda>idx. filter (\<lambda>r. rsp_onsets ! idx \<le> r \<and> r < rsp_onsets ! (idx + 1)) rpeaks)
         [0 ..< length rsp_onsets - 1]"

text \<open>The inter-beat intervals of one cycle, in seconds.\<close>

definition p2t_RRis :: "int list \<Rightarrow> real \<Rightarrow> fl list" where
  "p2t_RRis cycle sampling_rate =
     map (\<lambda>d. fl_div (Fin (real_of_int d)) (Fin sampling_rate)) (np_diff cycle)"

text \<open>
  One step of the second loop: the array of values is written at index \<open>i\<close> when the cycle
  has more than one interval, and left as it is (NaN) otherwise.
\<close>

definition p2t_step :: "real \<Rightarrow> nat \<times> int list \<Rightarrow> fl list \<Rightarrow> fl list" where
  "p2t_step sampling_rate ic rsa_values =
     (let RRis = p2t_RRis (snd ic) sampling_rate
      in if length RRis > 1
         then (case (np_max RRis, np_min RRis) of
                 (Inr mx, Inr mn) \<Rightarrow> rsa_values[fst ic := fl_sub mx mn]
               | _ \<Rightarrow> rsa_values)
         else rsa_values)"

definition p2t_values :: "int list \<Rightarrow> int list \<Rightarrow> real \<Rightarrow> fl list" where
  "p2t_values rsp_onsets rpeaks sampling_rate =
     (let cycles_rri = p2t_cycles_rri rsp_onsets rpeaks
      in fold (p2t_step sampling_rate) (enumerate 0 cycles_rri)
              (replicate (length cycles_rri) NaN))"

text \<open>The number of null entries of a float series.\<close>

definition count_null :: "fl list \<Rightarrow> nat" where
  "count_null a = length (filter isnan a)"

text \<open>The summary branch of \<open>_hrv_rsa_p2t\<close> (\<open>continuous is False\<close>).\<close>

definition p2t_summary :: "fl list \<Rightarrow> (string \<times> pyval) list" where
  "p2t_summary rsa_values =
     (let rsa = [(''RSA_P2T_Mean'', PFloat (np_nanmean rsa_values))];
          rsa = dict_set rsa ''RSA_P2T_Mean_log'' (PFloat (fl_log (np_nanmean rsa_values)));
          rsa = dict_set rsa ''RSA_P2T_SD'' (PFloat (np_nanstd rsa_values 1));
          rsa = dict_set rsa ''RSA_P2T_NoRSA'' (PInt (int (count_null rsa_values)))
      in rsa)"

text \<open>
  \<open>_hrv_rsa_p2t\<close>. In continuous mode the values that are not NaN are interpolated at
  the respiration peaks onto every sample of the heart-period series.
\<close>

definition hrv_rsa_p2t ::
  "collaborators \<Rightarrow> int list \<Rightarrow> int list \<Rightarrow> real \<Rightarrow> bool \<Rightarrow> fl list \<Rightarrow> int list \<Rightarrow> error + pyval" where
  "hrv_rsa_p2t ext rsp_onsets rpeaks sampling_rate continuous_flag ecg_period rsp_peaks =
     (let rsa_values = p2t_values rsp_onsets rpeaks sampling_rate
      in if \<not> continuous_flag then Inr (PDict (p2t_summary rsa_values))
         else (case bool_index rsp_peaks (map (\<lambda>v. \<not> isnan v) rsa_values) of
                 Inl e \<Rightarrow> Inl e
               | Inr x_values \<Rightarrow>
                   (case signal_interpolate ext x_values
                           (filter (\<lambda>v. \<not> isnan v) rsa_values)
                           (XArray (map int [0 ..< length ecg_period])) None of
                      Inl e \<Rightarrow> Inl e
                    | Inr rsa \<Rightarrow> Inr (PArray rsa))))"

subsection \<open>The summary statistics as the specification words them\<close>

text \<open>The arithmetic mean of a series (undefined, NaN, for the empty series).\<close>

definition mean_of :: "fl list \<Rightarrow> fl" where
  "mean_of ys = fl_div (np_sum ys) (Fin (real (length ys)))"

text \<open>
  The sample standard deviation (divisor \<open>n - 1\<close>) of a series, undefined for fewer
  than two values.
\<close>

definition sample_sd_of :: "fl list \<Rightarrow> fl" where
  "sample_sd_of ys =
     (if length ys < 2 then NaN
      else fl_sqrt (fl_div (np_sum (map (\<lambda>y. fl_mul (fl_sub y (mean_of ys)) (fl_sub y (mean_of ys))) ys))
                           (Fin (real (length ys - 1)))))"

text \<open>The defined (non-NaN) entries of a series.\<close>

definition defined_values :: "fl list \<Rightarrow> fl list" where
  "defined_values a = filter (\<lambda>v. \<not> isnan v) a"

text \<open>
  The value that the second loop leaves at a cycle's index, given the value \<open>v\<close> that
  was there before.
\<close>

definition p2t_upd :: "real \<Rightarrow> int list \<Rightarrow> fl \<Rightarrow> fl" where
  "p2t_upd sr c v =
     (let RRis = p2t_RRis c sr
      in if length RRis > 1
         then (case (np_max RRis, np_min RRis) of (Inr mx, Inr mn) \<Rightarrow> fl_sub mx mn | _ \<Rightarrow> v)
         else v)"

section \<open>Cycle extractor\<close>

text \<open>
  The signal table has one row per sample; the columns read here are the respiration
  phase, the phase completion and the respiration peak marks.
\<close>

record signal_row =
  RSP_Phase :: fl
  RSP_Phase_Completion :: fl
  RSP_Peaks :: fl

text \<open>The comparison \<open>==\<close> of two floats: false when one of them is NaN.\<close>

definition fl_eq :: "fl \<Rightarrow> fl \<Rightarrow> bool" where
  "fl_eq x y = (if isnan x \<or> isnan y then False else x = y)"

text \<open>\<open>np.where(condition)[0]\<close>: the indices at which a boolean array is true.\<close>

definition np_where :: "bool list \<Rightarrow> int list" where
  "np_where c = map int (filter (\<lambda>i. c ! i) [0 ..< length c])"

text \<open>
  \<open>np.intersect1d(ar1, ar2, assume_unique=True)\<close>: the two arrays are concatenated
  and sorted, and an entry is kept when it equals the entry after it.
\<close>

definition np_intersect1d :: "int list \<Rightarrow> int list \<Rightarrow> int list" where
  "np_intersect1d ar1 ar2 =
     (let aux = sort (ar1 @ ar2);
          msk = map (\<lambda>(x, y). x = y) (zip (tl aux) (butlast aux))
      in map fst (filter snd (zip (butlast aux) msk)))"

record rsp_cycles =
  RSP_Inspiration_Onsets :: "int list"
  RSP_Expiration_Onsets :: "int list"
  RSP_Cycles_Length :: "int list"

definition hrv_rsa_cycles :: "signal_row list \<Rightarrow> rsp_cycles" where
  "hrv_rsa_cycles signals =
     (let inspiration_onsets =
            np_intersect1d (np_where (map (\<lambda>r. fl_eq (RSP_Phase r) (Fin 1)) signals))
                           (np_where (map (\<lambda>r. fl_eq (RSP_Phase_Completion r) (Fin 0)) signals));
          expiration_onsets =
            np_intersect1d (np_where (map (\<lambda>r. fl_eq (RSP_Phase r) (Fin 0)) signals))
                           (np_where (map (\<lambda>r. fl_eq (RSP_Phase_Completion r) (Fin 0)) signals));
          cycles_length = np_diff inspiration_onsets
      in \<lparr>RSP_Inspiration_Onsets = inspiration_onsets,
          RSP_Expiration_Onsets = expiration_onsets,
          RSP_Cycles_Length = cycles_length\<rparr>)"

text \<open>The adjacent-duplicate selection of \<open>np.intersect1d\<close>, written recursively.\<close>

fun adjdup :: "int list \<Rightarrow> int list" where
  "adjdup (x # y # zs) = (if y = x then x # adjdup (y # zs) else adjdup (y # zs))"
| "adjdup zs = []"

section \<open>Porges-Bohrer estimator\<close>

text \<open>
  Elementwise arithmetic of two one-dimensional arrays with NumPy's broadcasting: the
  lengths are equal or one of them is 1; ValueError otherwise.
\<close>

definition np_binop :: "(fl \<Rightarrow> fl \<Rightarrow> fl) \<Rightarrow> fl list \<Rightarrow> fl list \<Rightarrow> error + fl list" where
  "np_binop f a b =
     (if length a = length b then Inr (map (\<lambda>(x, y). f x y) (zip a b))
      else if length a = 1 then Inr (map (\<lambda>y. f (hd a) y) b)
      else if length b = 1 then Inr (map (\<lambda>x. f x (hd b)) a)
      else Inl ValueError)"

text \<open>
  The epoch index of sample \<open>i\<close> of the 2 Hz series: \<open>(i / 2) // 30\<close>.
\<close>

definition pb_epoch_index :: "nat \<Rightarrow> int" where
  "pb_epoch_index i = \<lfloor>(real i / 2) / 30\<rfloor>"

text \<open>
  The epochs \<open>time.loc[i]\<close> for \<open>i\<close> from 0 to the largest epoch index: the samples
  whose epoch index is \<open>i\<close>. \<open>np.max\<close> raises ValueError on an empty series. Every
  index up to the largest one occurs, so that \<open>time.loc[i]\<close> always finds a row.
\<close>

definition pb_epochs :: "fl list \<Rightarrow> error + fl list list" where
  "pb_epochs zero_mean_filtered =
     (let idx = map pb_epoch_index [0 ..< length zero_mean_filtered]
      in if idx = [] then Inl ValueError
         else Inr (map (\<lambda>i. map snd (filter (\<lambda>(k, v). k = i) (zip idx zero_mean_filtered)))
                       (map int [0 ..< nat (Max (set idx) + 1)])))"

text \<open>
  pandas' \<open>var\<close> (sample variance, NaN entries skipped, NaN for fewer than two values)
  and \<open>mean\<close> (NaN entries skipped) compute what \<open>np.nanvar\<close> with \<open>ddof=1\<close> and
  \<open>np.nanmean\<close> compute.
\<close>

definition pd_var :: "fl list \<Rightarrow> fl" where
  "pd_var a = np_nanvar a 1"

definition pd_mean :: "fl list \<Rightarrow> fl" where
  "pd_mean a = np_nanmean a"

text \<open>\<open>pd.concat\<close> raises ValueError when it is given no object.\<close>

definition pd_concat :: "fl list \<Rightarrow> error + fl list" where
  "pd_concat objs = (if objs = [] then Inl ValueError else Inr objs)"

text \<open>
  The second half of \<open>_hrv_rsa_pb\<close>: the logarithm of each epoch's variance, the NaN
  ones dropped, the mean of the others.
\<close>

definition pb_variance :: "fl list list \<Rightarrow> fl list" where
  "pb_variance epochs =
     filter (\<lambda>row. \<not> isnan row) (map (\<lambda>epoch. fl_log (fl_div (pd_var epoch) (Fin 1000))) epochs)"

definition pb_aggregate :: "fl list \<Rightarrow> error + pyval" where
  "pb_aggregate zero_mean_filtered =
     (case pb_epochs zero_mean_filtered of
        Inl e \<Rightarrow> Inl e
      | Inr epochs \<Rightarrow>
          (case pd_concat (pb_variance epochs) of
             Inl e \<Rightarrow> Inl e
           | Inr v \<Rightarrow> Inr (PDict [(''RSA_PorgesBohrer'', PFloat (pd_mean v))])))"

definition hrv_rsa_pb :: "collaborators \<Rightarrow> fl list \<Rightarrow> real \<Rightarrow> bool \<Rightarrow> error + pyval" where
  "hrv_rsa_pb ext ecg_period sampling_rate continuous_flag =
     (if continuous_flag then Inr PNone
      else case signal_resample ext ecg_period sampling_rate 2 of
        Inl e \<Rightarrow> Inl e
      | Inr resampled \<Rightarrow>
          (case signal_filter ext resampled 2
                  \<lparr>lowcut = Some (95 / 1000), highcut = None, filter_method = Some ''savgol'',
                   order = Some 3, window_size = Some 21\<rparr> of
             Inl e \<Rightarrow> Inl e
           | Inr trend \<Rightarrow>
               (case np_binop fl_sub resampled trend of
                  Inl e \<Rightarrow> Inl e
                | Inr zero_mean \<Rightarrow>
                    (case signal_filter ext zero_mean 2
                            \<lparr>lowcut = Some (12 / 100), highcut = Some (40 / 100),
                             filter_method = None, order = None, window_size = None\<rparr> of
                       Inl e \<Rightarrow> Inl e
                     | Inr zero_mean_filtered \<Rightarrow> pb_aggregate zero_mean_filtered))))"

section \<open>Multipeak window generator\<close>

text \<open>
  The order in which NumPy sorts floats: ascending, NaN last. The sort is taken as stable.
\<close>

fun fl_key :: "fl \<Rightarrow> nat \<times> real" where
  "fl_key NInf = (0, 0)"
| "fl_key (Fin a) = (1, a)"
| "fl_key PInf = (2, 0)"
| "fl_key NaN = (3, 0)"

definition np_sort :: "fl list \<Rightarrow> fl list" where
  "np_sort a = sort_key fl_key a"

definition np_argsort :: "fl list \<Rightarrow> nat list" where
  "np_argsort a = map snd (sort_key (\<lambda>vi. fl_key (fst vi)) (zip a [0 ..< length a]))"

text \<open>The slice \<open>a[:k]\<close> (which is also \<open>a[0:k]\<close>); a negative \<open>k\<close> counts from the end.\<close>

definition py_take :: "int \<Rightarrow> 'a list \<Rightarrow> 'a list" where
  "py_take k a = (if 0 \<le> k then take (nat k) a else take (length a - nat (- k)) a)"

definition np_dot :: "fl list \<Rightarrow> fl list \<Rightarrow> fl" where
  "np_dot a b = np_sum (map (\<lambda>(x, y). fl_mul x y) (zip a b))"

text \<open>
  \<open>_get_multipeak_window\<close> from the point where \<open>F\<close> and \<open>RD\<close> are known. Matrices are
  lists of columns. Column \<open>i\<close> of \<open>FN\<close> is column \<open>h[i]\<close> of \<open>F\<close> divided by its
  Euclidean norm; the slice \<open>[len(RD) - 1 : 0 : -1]\<close> reverses and drops index 0. A
  result of the collaborator that has not the shape stated above is reported as
  ValueError.
\<close>

definition get_multipeak_window ::
  "collaborators \<Rightarrow> int \<Rightarrow> int \<Rightarrow> error + (fl list list \<times> fl list)" where
  "get_multipeak_window ext nperseg window_number =
     (case peak_matched_eig ext nperseg window_number of
        Inl e \<Rightarrow> Inl e
      | Inr (F, RD) \<Rightarrow>
          if int (length RD) \<noteq> nperseg \<or> length F \<noteq> length RD
             \<or> list_ex (\<lambda>col. length col \<noteq> length RD) F
          then Inl ValueError
          else
            let RDN = np_sort RD;
                h = np_argsort RD;
                FN = map (\<lambda>i. map (\<lambda>x. fl_div x (fl_sqrt (np_dot (F ! (h ! i)) (F ! (h ! i)))))
                                   (F ! (h ! i)))
                         [0 ..< length RD];
                RDN = rev (tl RDN);
                FN = rev (tl FN);
                weight = map (\<lambda>x. fl_div x (np_sum (py_take window_number RDN)))
                             (py_take window_number RDN);
                multipeak = py_take window_number FN
            in Inr (multipeak, weight))"

section \<open>Gates estimator\<close>

text \<open>The first error of a list of results, or all their values.\<close>

fun collect_err :: "(error + 'a) list \<Rightarrow> error + 'a list" where
  "collect_err [] = Inr []"
| "collect_err (Inl e # rs) = Inl e"
| "collect_err (Inr x # rs) = (case collect_err rs of Inl e \<Rightarrow> Inl e | Inr xs \<Rightarrow> Inr (x # xs))"

text \<open>
  Elementwise arithmetic of two two-dimensional arrays (lists of rows), broadcasting
  along both axes.
\<close>

definition np_binop2 ::
  "(fl \<Rightarrow> fl \<Rightarrow> fl) \<Rightarrow> fl list list \<Rightarrow> fl list list \<Rightarrow> error + fl list list" where
  "np_binop2 f a b =
     (if length a = length b then collect_err (map (\<lambda>(r, s). np_binop f r s) (zip a b))
      else if length a = 1 then collect_err (map (\<lambda>s. np_binop f (hd a) s) b)
      else if length b = 1 then collect_err (map (\<lambda>r. np_binop f r (hd b)) a)
      else Inl ValueError)"

text \<open>
  The loop of \<open>_hrv_rsa_gates\<close> over the window indices \<open>idxs\<close> (in the source:
  \<open>range(4)\<close>). At index \<open>i\<close> column \<open>i\<close> of \<open>multipeak\<close> is read first (IndexError
  when there is no such column), the spectrogram is computed with it, the accumulator
  is reset to zeros when \<open>i = 0\<close>, and the spectrogram times \<open>weight[i]\<close> is added to it.
  The state is the pair of the last \<open>time\<close> and the accumulator \<open>rsa\<close>.
\<close>

fun gates_loop ::
  "collaborators \<Rightarrow> fl list \<Rightarrow> int \<Rightarrow> int \<Rightarrow> fl list list \<Rightarrow> fl list \<Rightarrow> nat list
     \<Rightarrow> fl list \<times> fl list list \<Rightarrow> error + (fl list \<times> fl list list)" where
  "gates_loop ext rri window overlap multipeak weight [] st = Inr st"
| "gates_loop ext rri window overlap multipeak weight (i # idxs) st =
     (if length multipeak \<le> i then Inl IndexError
      else case signal_timefrequency ext rri 4 (12 / 100) (40 / 100) window (multipeak ! i) overlap of
        Inl e \<Rightarrow> Inl e
      | Inr (time, psd) \<Rightarrow>
          let rsa = (if i = 0 then map (map (\<lambda>x. Fin 0)) psd else snd st)
          in if length weight \<le> i then Inl IndexError
             else (case np_binop2 fl_add (map (map (\<lambda>x. fl_mul x (weight ! i))) psd) rsa of
                     Inl e \<Rightarrow> Inl e
                   | Inr rsa' \<Rightarrow>
                       gates_loop ext rri window overlap multipeak weight idxs (time, rsa')))"

text \<open>
  Python's \<open>sum(rsa)\<close> adds the rows of the array to the integer 0: the array of the
  column sums, or the integer 0 itself when there is no row.
\<close>

definition py_sum_rows :: "fl list list \<Rightarrow> error + fl list option" where
  "py_sum_rows rows =
     (case rows of
        [] \<Rightarrow> Inr None
      | r # rs \<Rightarrow>
          (case fold (\<lambda>row acc. case acc of Inl e \<Rightarrow> Inl e | Inr a \<Rightarrow> np_binop fl_add a row)
                     rs (Inr (map (\<lambda>x. fl_add (Fin 0) x) r)) of
             Inl e \<Rightarrow> Inl e
           | Inr a \<Rightarrow> Inr (Some a)))"

text \<open>
  \<open>np.log(2 * sum(rsa) / nperseg)\<close>: an array, or a scalar when \<open>sum(rsa)\<close> is the
  integer 0 (dividing it by \<open>nperseg = 0\<close> raises ZeroDivisionError).
\<close>

definition gates_meanRSA :: "fl list list \<Rightarrow> int \<Rightarrow> error + pyval" where
  "gates_meanRSA rsa nperseg =
     (case py_sum_rows rsa of
        Inl e \<Rightarrow> Inl e
      | Inr None \<Rightarrow> if nperseg = 0 then Inl ZeroDivisionError else Inr (PFloat (fl_log (Fin 0)))
      | Inr (Some a) \<Rightarrow>
          Inr (PArray (map (\<lambda>x. fl_log (fl_div (fl_mul (Fin 2) x) (Fin (real_of_int nperseg)))) a)))"

text \<open>The entries of a float array or scalar, for the NaN-ignoring reductions.\<close>

fun np_entries :: "pyval \<Rightarrow> fl list" where
  "np_entries (PArray a) = a"
| "np_entries (PFloat x) = [x]"
| "np_entries v = []"

text \<open>\<open>np.arange(start, start + pad)\<close> for a finite \<open>start\<close>, with step 1.\<close>

definition np_arange :: "real \<Rightarrow> real \<Rightarrow> fl list" where
  "np_arange start pad = map (\<lambda>k. Fin (start + real k)) [0 ..< nat \<lceil>pad\<rceil>]"

text \<open>
  \<open>astype(int)\<close> truncates towards zero; NaN and the infinities become the smallest
  64-bit integer.
\<close>

fun astype_int :: "fl \<Rightarrow> int" where
  "astype_int (Fin a) = (if 0 \<le> a then \<lfloor>a\<rfloor> else \<lceil>a\<rceil>)"
| "astype_int x = - (2 ^ 63)"

text \<open>The continuous branch of \<open>_hrv_rsa_gates\<close>.\<close>

definition gates_continuous ::
  "collaborators \<Rightarrow> nat \<Rightarrow> real \<Rightarrow> int \<Rightarrow> fl list \<Rightarrow> pyval \<Rightarrow> error + pyval" where
  "gates_continuous ext len_ecg_signals sampling_rate window time meanRSA =
     (let pad_length = real_of_int window / 2;
          time_start = np_arange 0 pad_length
      in case (if time = [] then None else Some (last time)) of
           None \<Rightarrow> Inl IndexError
         | Some NaN \<Rightarrow> Inl ValueError
         | Some PInf \<Rightarrow> Inl ValueError
         | Some NInf \<Rightarrow> Inl ValueError
         | Some (Fin t) \<Rightarrow>
             let time_end = tl (np_arange t pad_length);
                 time = time_start @ time @ time_end
             in (case meanRSA of
                   PArray (m # ms) \<Rightarrow>
                     let rsa_start = replicate (length time_start) m;
                         rsa_end = replicate (length time_end) (last (m # ms));
                         meanRSA = rsa_start @ (m # ms) @ rsa_end;
                         time = map (\<lambda>x. fl_mul x (Fin sampling_rate)) time
                     in (case signal_interpolate ext (map astype_int time) meanRSA
                                (XLength (int len_ecg_signals)) (Some ''monotone_cubic'') of
                           Inl e \<Rightarrow> Inl e
                         | Inr rsa \<Rightarrow> Inr (PArray rsa))
                 | _ \<Rightarrow> Inl IndexError))"

text \<open>
  \<open>_hrv_rsa_gates\<close>. The sampling rate is replaced by the one that \<open>_hrv_get_rri\<close>
  returns. The loop runs over \<open>range(4)\<close>.
\<close>

definition hrv_rsa_gates ::
  "collaborators \<Rightarrow> nat \<Rightarrow> int list \<Rightarrow> real \<Rightarrow> int \<Rightarrow> int option \<Rightarrow> bool \<Rightarrow> error + pyval" where
  "hrv_rsa_gates ext len_ecg_signals rpeaks sampling_rate window window_number continuous_flag =
     (case hrv_get_rri ext rpeaks sampling_rate of
        Inl e \<Rightarrow> Inl e
      | Inr (rri, sampling_rate) \<Rightarrow>
          (case signal_resample ext rri sampling_rate 4 of
             Inl e \<Rightarrow> Inl e
           | Inr rri \<Rightarrow>
               let overlap = (window - 1) * 4;
                   nperseg = window * 4;
                   window_number = (case window_number of None \<Rightarrow> 8 | Some k \<Rightarrow> k)
               in (case get_multipeak_window ext nperseg window_number of
                     Inl e \<Rightarrow> Inl e
                   | Inr (multipeak, weight) \<Rightarrow>
                       (case gates_loop ext rri window overlap multipeak weight [0 ..< 4] ([], []) of
                          Inl e \<Rightarrow> Inl e
                        | Inr (time, rsa) \<Rightarrow>
                            (case gates_meanRSA rsa nperseg of
                               Inl e \<Rightarrow> Inl e
                             | Inr meanRSA \<Rightarrow>
                                 if \<not> continuous_flag
                                 then
                                   let rsa = [(''RSA_Gates_Mean'', PFloat (np_nanmean (np_entries meanRSA)))];
                                       rsa = dict_set rsa ''RSA_Gates_Mean_log''
                                               (PFloat (fl_log (np_nanmean (np_entries meanRSA))));
                                       rsa = dict_set rsa ''RSA_Gates_SD''
                                               (PFloat (np_nanstd (np_entries meanRSA) 1))
                                   in Inr (PDict rsa)
                                 else gates_continuous ext len_ecg_signals sampling_rate window
                                        time meanRSA)))))"

section \<open>Orchestrator\<close>

datatype warning =
    CyclesWarning
  | ShortRecordingWarning int

text \<open>
  \<open>dict.update(other)\<close>: another dictionary or a table (an object with keys) is merged
  key by key; an object that is not iterable raises TypeError, and so does a non-empty
  float array, whose entries are not key-value pairs.
\<close>

fun dict_update :: "(string \<times> pyval) list \<Rightarrow> pyval \<Rightarrow> error + (string \<times> pyval) list" where
  "dict_update d (PDict other) = Inr (fold (\<lambda>kv acc. dict_set acc (fst kv) (snd kv)) other d)"
| "dict_update d (PFrame cols) =
     Inr (fold (\<lambda>kv acc. dict_set acc (fst kv) (PArray (snd kv))) cols d)"
| "dict_update d (PArray a) = (if a = [] then Inr d else Inl TypeError)"
| "dict_update d v = Inl TypeError"

text \<open>\<open>len\<close> of a value.\<close>

fun py_len :: "pyval \<Rightarrow> error + nat" where
  "py_len (PArray a) = Inr (length a)"
| "py_len (PDict d) = Inr (length d)"
| "py_len (PFrame cols) = Inr (case cols of [] \<Rightarrow> 0 | c # cs \<Rightarrow> length (snd c))"
| "py_len v = Inl TypeError"

text \<open>
  The end of \<open>hrv_rsa\<close>: in summary mode the three results are merged into one
  dictionary with \<open>update\<close>, in continuous mode a table is made of the two series,
  which raises ValueError when their lengths differ. (In continuous mode both estimators
  return arrays; other values are reported as TypeError.)
\<close>

definition hrv_rsa_merge :: "bool \<Rightarrow> pyval \<Rightarrow> pyval \<Rightarrow> pyval \<Rightarrow> error + pyval" where
  "hrv_rsa_merge continuous_flag rsa_p2t rsa_pb rsa_gates =
     (if \<not> continuous_flag
      then (case dict_update [] rsa_p2t of
              Inl e \<Rightarrow> Inl e
            | Inr rsa \<Rightarrow>
                (case dict_update rsa rsa_pb of
                   Inl e \<Rightarrow> Inl e
                 | Inr rsa \<Rightarrow>
                     (case dict_update rsa rsa_gates of
                        Inl e \<Rightarrow> Inl e
                      | Inr rsa \<Rightarrow> Inr (PDict rsa))))
      else (case (rsa_p2t, rsa_gates) of
              (PArray a, PArray b) \<Rightarrow>
                if length a = length b
                then Inr (PFrame [(''RSA_P2T'', a), (''RSA_Gates'', b)])
                else Inl ValueError
            | _ \<Rightarrow> Inl TypeError))"

text \<open>
  The respiration peaks that \<open>hrv_rsa\<close> hands to the estimators, and the warning it
  raises about them: the peaks after the first inspiration onset, without the last one
  when there are as many peaks as onsets; a warning unless there is then exactly one
  peak fewer than onsets. Reading the first onset raises IndexError when there is none.
\<close>

definition hrv_rsa_peaks :: "signal_row list \<Rightarrow> int list \<Rightarrow> error + (int list \<times> warning list)" where
  "hrv_rsa_peaks signals rsp_onsets =
     (let rsp_peaks = np_where (map (\<lambda>r. fl_eq (RSP_Peaks r) (Fin 1)) signals)
      in case rsp_onsets of
           [] \<Rightarrow> Inl IndexError
         | onset0 # rest \<Rightarrow>
             let rsp_peaks = filter (\<lambda>p. p > onset0) rsp_peaks;
                 rsp_peaks = (if int (length rsp_peaks) - int (length rsp_onsets) = 0
                              then butlast rsp_peaks else rsp_peaks)
             in Inr (rsp_peaks,
                     if int (length rsp_peaks) - int (length rsp_onsets) \<noteq> - 1
                     then [CyclesWarning] else []))"

text \<open>
  \<open>hrv_rsa\<close> after \<open>_hrv_rsa_formatinput\<close>: its arguments are the formatted signal
  table, the heart-period series, the R-peak indices and the length of \<open>ecg_signals\<close>.
  The result is the returned value or the raised error, together with the warnings
  raised before.
\<close>

definition hrv_rsa ::
  "collaborators \<Rightarrow> signal_row list \<Rightarrow> fl list \<Rightarrow> int list \<Rightarrow> nat \<Rightarrow> real \<Rightarrow> bool
     \<Rightarrow> int option \<Rightarrow> int option \<Rightarrow> (error + pyval) \<times> warning list" where
  "hrv_rsa ext signals ecg_period rpeaks len_ecg_signals sampling_rate continuous_flag
           window window_number =
     (let rsp_cycles = hrv_rsa_cycles signals;
          rsp_onsets = RSP_Inspiration_Onsets rsp_cycles
      in case hrv_rsa_peaks signals rsp_onsets of
           Inl e \<Rightarrow> (Inl e, [])
         | Inr (rsp_peaks, warnings) \<Rightarrow>
             (case hrv_rsa_p2t ext rsp_onsets rpeaks sampling_rate continuous_flag ecg_period
                     rsp_peaks of
                Inl e \<Rightarrow> (Inl e, warnings)
              | Inr rsa_p2t \<Rightarrow>
                  (case hrv_rsa_pb ext ecg_period sampling_rate continuous_flag of
                     Inl e \<Rightarrow> (Inl e, warnings)
                   | Inr rsa_pb \<Rightarrow>
                       let window = (case window of None \<Rightarrow> 32 | Some w \<Rightarrow> w)
                       in if rpeaks = [] then (Inl IndexError, warnings)
                          else
                            let input_duration =
                                  fl_div (Fin (real_of_int (last rpeaks))) (Fin sampling_rate)
                            in if fl_le (Fin (real_of_int window)) input_duration
                               then (case hrv_rsa_gates ext len_ecg_signals rpeaks sampling_rate
                                            window window_number continuous_flag of
                                       Inl e \<Rightarrow> (Inl e, warnings)
                                     | Inr rsa_gates \<Rightarrow>
                                         (hrv_rsa_merge continuous_flag rsa_p2t rsa_pb rsa_gates,
                                          warnings))
                               else
                                 let warnings = warnings @ [ShortRecordingWarning window]
                                 in if \<not> continuous_flag
                                    then (hrv_rsa_merge continuous_flag rsa_p2t rsa_pb (PFloat NaN),
                                          warnings)
                                    else (case py_len rsa_p2t of
                                            Inl e \<Rightarrow> (Inl e, warnings)
                                          | Inr n \<Rightarrow>
                                              (hrv_rsa_merge continuous_flag rsa_p2t rsa_pb
                                                 (PArray (replicate n NaN)),
                                               warnings)))))"

section \<open>A concrete recording\<close>

text \<open>
  Stand-ins for the collaborators, used to run the estimators on concrete inputs:
  resampling and filtering return the signal as it is, the interpolation returns zeros
  of the requested length, the RR-interval series is the differences of the R-peaks,
  the spectrogram has one frequency row and one segment holding the energy of the
  window, and the eigen-decomposition returns the identity matrix with the
  diagonal \<open>1, 2, ..., nperseg\<close>.
\<close>

definition example_collaborators :: collaborators where
  "example_collaborators =
     \<lparr>signal_interpolate =
        (\<lambda>x_values y_values x_new method.
           Inr (case x_new of
                  XArray a \<Rightarrow> map (\<lambda>i. Fin 0) a
                | XLength n \<Rightarrow> replicate (nat n) (Fin 0))),
      signal_resample = (\<lambda>signal sampling_rate desired_sampling_rate. Inr signal),
      signal_filter = (\<lambda>signal sampling_rate call. Inr signal),
      hrv_get_rri =
        (\<lambda>rpeaks sampling_rate. Inr (map (\<lambda>d. Fin (real_of_int d)) (np_diff rpeaks), sampling_rate)),
      signal_timefrequency =
        (\<lambda>signal sampling_rate min_frequency max_frequency window window_type overlap.
           Inr ([Fin 0], [[np_dot window_type window_type]])),
      peak_matched_eig =
        (\<lambda>nperseg window_number.
           Inr (map (\<lambda>j. map (\<lambda>i. if i = j then Fin 1 else Fin 0) [0 ..< nat nperseg])
                    [0 ..< nat nperseg],
                map (\<lambda>i. Fin (real i + 1)) [0 ..< nat nperseg]))\<rparr>"

text \<open>
  A table of twelve samples with inspiration onsets at samples 0, 4 and 8 and a
  respiration peak in each of the three cycles.
\<close>

definition example_row :: "real \<Rightarrow> real \<Rightarrow> real \<Rightarrow> signal_row" where
  "example_row phase completion peak =
     \<lparr>RSP_Phase = Fin phase, RSP_Phase_Completion = Fin completion, RSP_Peaks = Fin peak\<rparr>"

definition example_signals :: "signal_row list" where
  "example_signals =
     [example_row 1 0 0, example_row 1 (1 / 2) 1, example_row 0 0 0, example_row 0 (1 / 2) 0,
      example_row 1 0 0, example_row 1 (1 / 2) 1, example_row 0 0 0, example_row 0 (1 / 2) 0,
      example_row 1 0 0, example_row 1 (1 / 2) 1, example_row 0 0 0, example_row 0 (1 / 2) 0]"

definition example_ecg_period :: "fl list" where
  "example_ecg_period =
     map Fin [800, 810, 790, 805, 795, 800, 812, 788, 803, 797, 801, 799]"

text \<open>
  A table with one inspiration onset (sample 0) and two respiration peaks after it
  (samples 1 and 2).
\<close>

definition two_peaks_signals :: "signal_row list" where
  "two_peaks_signals =
     [example_row 1 0 0, example_row 1 (1 / 3) 1, example_row 1 (2 / 3) 1]"

section \<open>Notions used in the statements\<close>

text \<open>
  The respiration peaks restricted to those after the first inspiration onset (none
  when there is no onset).
\<close>

definition rsp_peaks_after_onset :: "signal_row list \<Rightarrow> int list" where
  "rsp_peaks_after_onset signals =
     (case RSP_Inspiration_Onsets (hrv_rsa_cycles signals) of
        [] \<Rightarrow> []
      | onset0 # rest \<Rightarrow>
          filter (\<lambda>p. onset0 < p) (np_where (map (\<lambda>r. fl_eq (RSP_Peaks r) (Fin 1)) signals)))"

text \<open>Two counts are inconsistent by more than one.\<close>

definition inconsistent_by_more_than_one :: "nat \<Rightarrow> nat \<Rightarrow> bool" where
  "inconsistent_by_more_than_one p q = (1 < \<bar>int p - int q\<bar>)"

section \<open>Properties of the numeric values\<close>

lemma fl_le_refl: "\<not> isnan x \<Longrightarrow> fl_le x x"
  by (cases x) (auto simp: isnan_def)

lemma fl_le_trans: "fl_le x y \<Longrightarrow> fl_le y z \<Longrightarrow> fl_le x z"
  by (cases x; cases y; cases z) auto

lemma fl_le_total: "\<not> isnan x \<Longrightarrow> \<not> isnan y \<Longrightarrow> fl_le x y \<or> fl_le y x"
  by (cases x; cases y) (auto simp: isnan_def)

lemma fl_le_notnan: "fl_le x y \<Longrightarrow> \<not> isnan x \<and> \<not> isnan y"
  by (cases x; cases y) (auto simp: isnan_def)

lemma fold_max_nan: "fold (\<lambda>y m. fl_max m y) ys NaN = NaN"
  by (induction ys) (auto simp: fl_max_def isnan_def)

lemma fold_min_nan: "fold (\<lambda>y m. fl_min m y) ys NaN = NaN"
  by (induction ys) (auto simp: fl_min_def isnan_def)

lemma fl_max_nan: "isnan m \<or> isnan y \<Longrightarrow> fl_max m y = NaN"
  by (auto simp: fl_max_def)

lemma fl_min_nan: "isnan m \<or> isnan y \<Longrightarrow> fl_min m y = NaN"
  by (auto simp: fl_min_def)

lemma fold_max_ge:
  "fold (\<lambda>y m. fl_max m y) ys m = NaN \<or> fl_le m (fold (\<lambda>y m. fl_max m y) ys m)"
proof (induction ys arbitrary: m)
  case Nil
  then show ?case using fl_le_refl by (auto simp: isnan_def)
next
  case (Cons y ys)
  show ?case
  proof (cases "isnan m \<or> isnan y")
    case True
    then show ?thesis by (simp add: fl_max_nan fold_max_nan)
  next
    case False
    then have "fl_le m (fl_max m y)"
      using fl_le_refl by (auto simp: fl_max_def)
    with Cons.IH [of "fl_max m y"] show ?thesis
      by (auto intro: fl_le_trans)
  qed
qed

lemma fold_min_le:
  "fold (\<lambda>y m. fl_min m y) ys m = NaN \<or> fl_le (fold (\<lambda>y m. fl_min m y) ys m) m"
proof (induction ys arbitrary: m)
  case Nil
  then show ?case using fl_le_refl by (auto simp: isnan_def)
next
  case (Cons y ys)
  show ?case
  proof (cases "isnan m \<or> isnan y")
    case True
    then show ?thesis by (simp add: fl_min_nan fold_min_nan)
  next
    case False
    then have "fl_le (fl_min m y) m"
      using fl_le_refl fl_le_total by (auto simp: fl_min_def)
    with Cons.IH [of "fl_min m y"] show ?thesis
      by (auto intro: fl_le_trans)
  qed
qed

lemma fl_sub_nonneg: "fl_le y x \<Longrightarrow> isnan (fl_sub x y) \<or> fl_le (Fin 0) (fl_sub x y)"
  by (cases x; cases y) (auto simp: fl_sub_def isnan_def)

lemma fl_sub_nan: "isnan x \<or> isnan y \<Longrightarrow> isnan (fl_sub x y)"
  by (cases x; cases y) (auto simp: fl_sub_def isnan_def)

lemma range_nonneg:
  assumes "np_max xs = Inr mx" "np_min xs = Inr mn"
  shows "isnan (fl_sub mx mn) \<or> fl_le (Fin 0) (fl_sub mx mn)"
proof (cases xs)
  case Nil
  with assms show ?thesis by simp
next
  case (Cons x ys)
  with assms have mx: "mx = fold (\<lambda>y m. fl_max m y) ys x" and mn: "mn = fold (\<lambda>y m. fl_min m y) ys x"
    by auto
  show ?thesis
  proof (cases "isnan mx \<or> isnan mn")
    case True
    then show ?thesis using fl_sub_nan by blast
  next
    case False
    then have "fl_le x mx" "fl_le mn x"
      using fold_max_ge [of ys x] fold_min_le [of ys x] mx mn by (auto simp: isnan_def)
    then have "fl_le mn mx" by (rule fl_le_trans [rotated])
    then show ?thesis by (rule fl_sub_nonneg)
  qed
qed


section \<open>Properties of the peak-to-trough estimator\<close>

lemma p2t_step_length: "length (p2t_step sr ic vals) = length vals"
  by (simp add: p2t_step_def Let_def split: sum.splits)

lemma p2t_step_nth:
  "i < length vals \<Longrightarrow> p2t_step sr (k, c) vals ! i = (if i = k then p2t_upd sr c (vals ! i) else vals ! i)"
  by (simp add: p2t_step_def p2t_upd_def Let_def split: sum.splits)

lemma fold_p2t_step_length: "length (fold (p2t_step sr) ics vals) = length vals"
  by (induction ics arbitrary: vals) (simp_all add: p2t_step_length)

lemma fold_p2t_step_nth:
  "i < length vals \<Longrightarrow>
   fold (p2t_step sr) (enumerate k cs) vals ! i =
     (if k \<le> i \<and> i < k + length cs then p2t_upd sr (cs ! (i - k)) (vals ! i) else vals ! i)"
proof (induction cs arbitrary: k vals)
  case Nil
  then show ?case by auto
next
  case (Cons c cs)
  have len: "i < length (p2t_step sr (k, c) vals)"
    using Cons.prems by (simp add: p2t_step_length)
  show ?case
  proof (cases "i = k")
    case True
    then show ?thesis
      using Cons.IH [OF len, of "Suc k"] Cons.prems by (simp add: p2t_step_nth)
  next
    case False
    then show ?thesis
      using Cons.IH [OF len, of "Suc k"] Cons.prems
      by (auto simp: p2t_step_nth nth_Cons')
  qed
qed

lemma p2t_values_length: "length (p2t_values onsets rpeaks sr) = length onsets - 1"
  by (simp add: p2t_values_def Let_def fold_p2t_step_length p2t_cycles_rri_def)

lemma p2t_values_nth:
  assumes "idx + 1 < length onsets"
  shows "p2t_values onsets rpeaks sr ! idx =
     p2t_upd sr (filter (\<lambda>r. onsets ! idx \<le> r \<and> r < onsets ! (idx + 1)) rpeaks) NaN"
proof -
  have "idx < length (p2t_cycles_rri onsets rpeaks)"
    using assms by (simp add: p2t_cycles_rri_def)
  then show ?thesis
    using assms
    by (simp add: p2t_values_def Let_def fold_p2t_step_nth)
       (simp add: p2t_cycles_rri_def)
qed

lemma fold_max_Fin: "fold (\<lambda>y m. fl_max m y) (map Fin ys) (Fin x) = Fin (fold max ys x)"
  by (induction ys arbitrary: x) (auto simp: fl_max_def isnan_def max_def)

lemma fold_min_Fin: "fold (\<lambda>y m. fl_min m y) (map Fin ys) (Fin x) = Fin (fold min ys x)"
  by (induction ys arbitrary: x) (auto simp: fl_min_def isnan_def min_def)

lemma np_max_Fin: "ys \<noteq> [] \<Longrightarrow> np_max (map Fin ys) = Inr (Fin (Max (set ys)))"
  by (cases ys) (simp_all add: fold_max_Fin Max.set_eq_fold [symmetric])

lemma np_min_Fin: "ys \<noteq> [] \<Longrightarrow> np_min (map Fin ys) = Inr (Fin (Min (set ys)))"
  by (cases ys) (simp_all add: fold_min_Fin Min.set_eq_fold [symmetric])

lemma p2t_RRis_pos:
  "sr \<noteq> 0 \<Longrightarrow> p2t_RRis c sr = map Fin (map (\<lambda>d. real_of_int d / sr) (np_diff c))"
  by (simp add: p2t_RRis_def)

lemma np_diff_nth: "np_diff a = map (\<lambda>j. a ! (j + 1) - a ! j) [0 ..< length a - 1]"
  by (rule nth_equalityI) (simp_all add: np_diff_def nth_butlast nth_tl)

lemma fl_add_zero: "fl_add (Fin 0) y = y"
  by (cases y) simp_all

lemma np_sum_replace_nan: "np_sum (replace_nan a) = np_sum (defined_values a)"
  by (induction a) (simp_all add: np_sum_def replace_nan_def defined_values_def fl_add_zero)

lemma count_notnan_defined: "count_notnan a = length (defined_values a)"
  by (simp add: count_notnan_def defined_values_def)

lemma np_nanmean_mean_of: "np_nanmean a = mean_of (defined_values a)"
  by (simp add: np_nanmean_def mean_of_def np_sum_replace_nan count_notnan_defined)

lemma np_sum_sqr_dev:
  "np_sum (map (\<lambda>d. fl_mul d d)
      (map (\<lambda>(x, m). if m then Fin 0 else fl_sub x avg) (zip (replace_nan a) (map isnan a))))
   = np_sum (map (\<lambda>y. fl_mul (fl_sub y avg) (fl_sub y avg)) (defined_values a))"
  by (induction a) (simp_all add: np_sum_def replace_nan_def defined_values_def fl_add_zero)

lemma np_nanstd_sample_sd: "np_nanstd a 1 = sample_sd_of (defined_values a)"
proof -
  let ?n = "length (defined_values a)"
  have avg: "fl_div (np_sum (replace_nan a)) (Fin (real_of_int (int (count_notnan a)))) = mean_of (defined_values a)"
    by (simp add: mean_of_def np_sum_replace_nan count_notnan_defined)
  show ?thesis
  proof (cases "?n < 2")
    case True
    then show ?thesis
      by (simp add: np_nanstd_def np_nanvar_def Let_def sample_sd_of_def count_notnan_defined)
  next
    case False
    then have "real_of_int (int ?n - 1) = real (?n - 1)" by simp
    with False show ?thesis
      unfolding np_nanstd_def np_nanvar_def Let_def sample_sd_of_def avg np_sum_sqr_dev
      by (simp add: count_notnan_defined)
  qed
qed

lemma count_null_plus: "count_null a + length (defined_values a) = length a"
  by (induction a) (simp_all add: count_null_def defined_values_def)

text \<open>
  Claim C4. For every cycle between two consecutive inspiration onsets, the value the
  estimator assigns is computed from the R-peaks in \<open>[onset, next_onset)\<close>: with their
  successive intervals in seconds (a non-zero sampling rate), it is the largest interval
  minus the smallest when there are at least two intervals and NaN otherwise; whatever
  the sampling rate, it is NaN when there are fewer than two intervals, and a value that
  is not NaN is at least 0.
\<close>

theorem p2t_cycle_value:
  assumes "idx + 1 < length rsp_onsets"
  shows "let cycle = filter (\<lambda>r. rsp_onsets ! idx \<le> r \<and> r < rsp_onsets ! (idx + 1)) rpeaks;
             intervals = map (\<lambda>j. real_of_int (cycle ! (j + 1) - cycle ! j) / sampling_rate)
                             [0 ..< length cycle - 1];
             v = p2t_values rsp_onsets rpeaks sampling_rate ! idx
         in (sampling_rate \<noteq> 0 \<longrightarrow>
               v = (if 2 \<le> length intervals
                    then Fin (Max (set intervals) - Min (set intervals)) else NaN))
            \<and> (length intervals < 2 \<longrightarrow> isnan v)
            \<and> (isnan v \<or> fl_le (Fin 0) v)"
proof -
  define cycle where "cycle = filter (\<lambda>r. rsp_onsets ! idx \<le> r \<and> r < rsp_onsets ! (idx + 1)) rpeaks"
  define intervals where
    "intervals = map (\<lambda>j. real_of_int (cycle ! (j + 1) - cycle ! j) / sampling_rate) [0 ..< length cycle - 1]"
  define v where "v = p2t_values rsp_onsets rpeaks sampling_rate ! idx"
  have v: "v = p2t_upd sampling_rate cycle NaN"
    unfolding v_def cycle_def using assms by (rule p2t_values_nth)
  have len: "length (p2t_RRis cycle sampling_rate) = length intervals"
    by (simp add: p2t_RRis_def intervals_def np_diff_nth)
  have a: "v = (if 2 \<le> length intervals
                then Fin (Max (set intervals) - Min (set intervals)) else NaN)"
    if sr: "sampling_rate \<noteq> 0"
  proof -
    have RRis: "p2t_RRis cycle sampling_rate = map Fin intervals"
      using sr by (simp add: p2t_RRis_def intervals_def np_diff_nth)
    show ?thesis
    proof (cases "2 \<le> length intervals")
      case True
      then have "intervals \<noteq> []" by auto
      with True show ?thesis
        by (simp add: v p2t_upd_def RRis np_max_Fin np_min_Fin fl_sub_def)
    next
      case False
      then show ?thesis
        by (simp add: v p2t_upd_def RRis)
    qed
  qed
  have b: "isnan v \<or> fl_le (Fin 0) v"
  proof (cases "length (p2t_RRis cycle sampling_rate) > 1")
    case True
    then obtain x ys where "p2t_RRis cycle sampling_rate = x # ys"
      by (cases "p2t_RRis cycle sampling_rate") auto
    then obtain mx mn where m: "np_max (p2t_RRis cycle sampling_rate) = Inr mx"
        "np_min (p2t_RRis cycle sampling_rate) = Inr mn"
      by auto
    with True have "v = fl_sub mx mn"
      by (simp add: v p2t_upd_def)
    with range_nonneg [OF m] show ?thesis by simp
  next
    case False
    then show ?thesis by (simp add: v p2t_upd_def isnan_def)
  qed
  have c: "isnan v" if "length intervals < 2"
    using that by (simp add: v p2t_upd_def len isnan_def)
  from a b c show ?thesis
    unfolding Let_def cycle_def [symmetric] intervals_def [symmetric] v_def [symmetric]
    by blast
qed

theorem p2t_cycle_value_witness:
  "p2t_values [0, 10, 20, 30] [1, 3, 6, 12, 25, 26, 28] 1 ! 0 = Fin 1
   \<and> p2t_values [0, 10, 20, 30] [1, 3, 6, 12, 25, 26, 28] 1 ! 1 = NaN"
  using p2t_cycle_value [of 0 "[0, 10, 20, 30]" "[1, 3, 6, 12, 25, 26, 28]" 1]
    p2t_cycle_value [of 1 "[0, 10, 20, 30]" "[1, 3, 6, 12, 25, 26, 28]" 1]
  by (simp add: Let_def)

lemma map_of_p2t_summary:
  "map_of (p2t_summary a) ''RSA_P2T_Mean'' = Some (PFloat (np_nanmean a))"
  "map_of (p2t_summary a) ''RSA_P2T_Mean_log'' = Some (PFloat (fl_log (np_nanmean a)))"
  "map_of (p2t_summary a) ''RSA_P2T_SD'' = Some (PFloat (np_nanstd a 1))"
  "map_of (p2t_summary a) ''RSA_P2T_NoRSA'' = Some (PInt (int (count_null a)))"
  by (simp_all add: p2t_summary_def dict_set_def)

text \<open>
  Claim C7. In summary mode the estimator returns a dictionary that holds the mean of the
  defined (non-NaN) per-cycle values, the natural logarithm of that mean, the sample
  standard deviation (divisor \<open>n - 1\<close>) of the defined values, and the number of
  undefined cycles: NumPy's NaN-ignoring reductions agree with the plain statistics of
  the series from which the NaN entries are removed.
\<close>

theorem p2t_summary_statistics:
  "\<exists>d. hrv_rsa_p2t ext rsp_onsets rpeaks sampling_rate False ecg_period rsp_peaks = Inr (PDict d)
     \<and> map_of d ''RSA_P2T_Mean'' =
         Some (PFloat (mean_of (defined_values (p2t_values rsp_onsets rpeaks sampling_rate))))
     \<and> map_of d ''RSA_P2T_Mean_log'' =
         Some (PFloat (fl_log (mean_of (defined_values (p2t_values rsp_onsets rpeaks sampling_rate)))))
     \<and> map_of d ''RSA_P2T_SD'' =
         Some (PFloat (sample_sd_of (defined_values (p2t_values rsp_onsets rpeaks sampling_rate))))
     \<and> map_of d ''RSA_P2T_NoRSA'' =
         Some (PInt (int (length (filter isnan (p2t_values rsp_onsets rpeaks sampling_rate)))))"
  by (simp add: hrv_rsa_p2t_def Let_def map_of_p2t_summary np_nanmean_mean_of
      np_nanstd_sample_sd count_null_def)

text \<open>
  Claim C10. In summary mode \<open>RSA_P2T_NoRSA\<close> plus the number of cycles with a defined
  value is the number of breath cycles: the number of inspiration onsets minus one, or
  zero when there are fewer than two onsets.
\<close>

theorem p2t_norsa_partition:
  "\<exists>d n. hrv_rsa_p2t ext rsp_onsets rpeaks sampling_rate False ecg_period rsp_peaks = Inr (PDict d)
     \<and> map_of d ''RSA_P2T_NoRSA'' = Some (PInt (int n))
     \<and> n + length (defined_values (p2t_values rsp_onsets rpeaks sampling_rate))
         = (if length rsp_onsets < 2 then 0 else length rsp_onsets - 1)"
proof -
  let ?vals = "p2t_values rsp_onsets rpeaks sampling_rate"
  have "count_null ?vals + length (defined_values ?vals) = length rsp_onsets - 1"
    by (simp add: count_null_plus p2t_values_length)
  then show ?thesis
    by (auto simp: hrv_rsa_p2t_def Let_def map_of_p2t_summary)
qed

section \<open>Properties of the cycle extractor\<close>

lemma adjdup_eq:
  "map fst (filter snd (zip (butlast aux) (map (\<lambda>(x, y). x = y) (zip (tl aux) (butlast aux))))) = adjdup aux"
proof (induction aux rule: adjdup.induct)
  case (1 x y zs)
  have b: "butlast (a # c # l) = a # butlast (c # l)" for a c :: int and l by simp
  from 1 show ?case
    by (cases "y = x") (simp_all del: butlast.simps add: b)
qed simp_all

lemma np_intersect1d_adjdup: "np_intersect1d ar1 ar2 = adjdup (sort (ar1 @ ar2))"
  by (simp add: np_intersect1d_def Let_def adjdup_eq)

lemma adjdup_subset: "set (adjdup zs) \<subseteq> set zs"
  by (induction zs rule: adjdup.induct) auto

lemma set_adjdup: "sorted zs \<Longrightarrow> set (adjdup zs) = {x. 2 \<le> count_list zs x}"
proof (induction zs rule: adjdup.induct)
  case (1 x y zs)
  have IH: "set (adjdup (y # zs)) = {w. 2 \<le> count_list (y # zs) w}"
    using 1 by (cases "y = x") simp_all
  show ?case
  proof (cases "y = x")
    case True
    then show ?thesis using IH by auto
  next
    case False
    then have "x < y" and "\<forall>z\<in>set zs. x < z" using "1.prems" by auto
    then have "count_list (y # zs) x = 0"
      by (auto simp: count_list_0_iff)
    with False show ?thesis using IH by auto
  qed
qed auto

lemma sorted_adjdup: "sorted zs \<Longrightarrow> sorted (adjdup zs)"
proof (induction zs rule: adjdup.induct)
  case (1 x y zs)
  then show ?case using adjdup_subset [of "y # zs"] by auto
qed auto

lemma distinct_adjdup:
  "sorted zs \<Longrightarrow> (\<And>x. count_list zs x \<le> 2) \<Longrightarrow> distinct (adjdup zs)"
proof (induction zs rule: adjdup.induct)
  case (1 x y zs)
  have le: "count_list (y # zs) w \<le> 2" for w
    using "1.prems"(2) [of w] by (auto split: if_splits)
  have d: "distinct (adjdup (y # zs))"
    using "1.IH" "1.prems"(1) le by (cases "y = x") simp_all
  show ?case
  proof (cases "y = x")
    case True
    have "count_list (x # zs) x \<le> 1"
      using "1.prems"(2) [of x] True by simp
    then have "x \<notin> set (adjdup (x # zs))"
      using set_adjdup [of "x # zs"] "1.prems"(1) True by auto
    with d True show ?thesis by simp
  next
    case False
    with d show ?thesis by simp
  qed
qed auto

lemma count_list_sort: "count_list (sort l) x = count_list l (x::int)"
  by (simp add: count_list_eq_length_filter filter_sort)

lemma count_list_distinct: "distinct l \<Longrightarrow> count_list l x = (if x \<in> set l then 1 else 0)"
  by (induction l) auto

lemma np_intersect1d_filter:
  assumes "sorted xs" "distinct xs" "distinct ys"
  shows "np_intersect1d xs ys = filter (\<lambda>x. x \<in> set ys) xs"
proof -
  let ?zs = "sort (xs @ ys)"
  have cnt: "count_list ?zs x = (if x \<in> set xs then 1 else 0) + (if x \<in> set ys then 1 else 0)" for x
    using assms by (simp add: count_list_sort count_list_distinct)
  have "set (adjdup ?zs) = set xs \<inter> set ys"
    by (auto simp: set_adjdup cnt split: if_splits)
  moreover have "sorted (adjdup ?zs)" by (simp add: sorted_adjdup)
  moreover have "distinct (adjdup ?zs)"
    by (rule distinct_adjdup) (simp_all add: cnt)
  moreover have "sorted (filter (\<lambda>x. x \<in> set ys) xs)" "distinct (filter (\<lambda>x. x \<in> set ys) xs)"
    using assms by (simp_all add: sorted_wrt_filter)
  moreover have "set (filter (\<lambda>x. x \<in> set ys) xs) = set xs \<inter> set ys" by auto
  ultimately show ?thesis
    unfolding np_intersect1d_adjdup
    by (metis sorted_distinct_set_unique)
qed


lemma np_where_sorted: "sorted_wrt (<) (np_where c)"
  by (simp add: np_where_def sorted_wrt_map sorted_wrt_filter)

lemma np_where_inter:
  assumes "length c2 = length c1"
  shows "np_intersect1d (np_where c1) (np_where c2)
         = map int (filter (\<lambda>i. c1 ! i \<and> c2 ! i) [0 ..< length c1])"
proof -
  have s: "sorted (np_where c1)" "distinct (np_where c1)" "distinct (np_where c2)"
    using np_where_sorted strict_sorted_iff by blast+
  have m: "int i \<in> set (np_where c2) \<longleftrightarrow> i < length c1 \<and> c2 ! i" for i
    using assms by (auto simp: np_where_def)
  have "filter (\<lambda>x. x \<in> set (np_where c2)) (np_where c1)
          = map int (filter (\<lambda>i. c1 ! i \<and> c2 ! i) [0 ..< length c1])"
    unfolding np_where_def [of c1] filter_map filter_filter comp_def m
    by (rule arg_cong [where f = "map int"], rule filter_cong) auto
  with np_intersect1d_filter [OF s] show ?thesis by simp
qed

lemma onsets_eq:
  "np_intersect1d (np_where (map (\<lambda>r. fl_eq (RSP_Phase r) (Fin a)) signals))
                  (np_where (map (\<lambda>r. fl_eq (RSP_Phase_Completion r) (Fin b)) signals))
   = map int (filter (\<lambda>i. RSP_Phase (signals ! i) = Fin a \<and> RSP_Phase_Completion (signals ! i) = Fin b)
                     [0 ..< length signals])"
proof -
  have "filter (\<lambda>i. map (\<lambda>r. fl_eq (RSP_Phase r) (Fin a)) signals ! i
                    \<and> map (\<lambda>r. fl_eq (RSP_Phase_Completion r) (Fin b)) signals ! i) [0 ..< length signals]
        = filter (\<lambda>i. RSP_Phase (signals ! i) = Fin a \<and> RSP_Phase_Completion (signals ! i) = Fin b)
                 [0 ..< length signals]"
    by (rule filter_cong) (auto simp: fl_eq_def isnan_def)
  then show ?thesis
    by (simp add: np_where_inter)
qed

lemma np_diff_pos:
  assumes "sorted_wrt (<) a" "d \<in> set (np_diff a)"
  shows "0 < d"
proof -
  from assms(2) obtain j where "j < length a - 1" "d = a ! (j + 1) - a ! j"
    by (auto simp: np_diff_nth)
  moreover from this assms(1) have "a ! j < a ! (j + 1)"
    by (simp add: sorted_wrt_nth_less)
  ultimately show ?thesis by simp
qed

text \<open>
  Claim C6. The cycle extractor returns as inspiration onsets exactly the sample indices
  where the phase is 1 and the phase completion is 0, as expiration onsets exactly those
  where the phase is 0 and the phase completion is 0, and as cycle lengths the differences
  of consecutive inspiration onsets: one fewer than the onsets (none for zero or one
  onset), each of them positive. The extractor is a function of the signal table alone.
\<close>

theorem hrv_rsa_cycles_correct:
  "let c = hrv_rsa_cycles signals;
       onsets = RSP_Inspiration_Onsets c
   in onsets = map int (filter (\<lambda>i. RSP_Phase (signals ! i) = Fin 1
                                    \<and> RSP_Phase_Completion (signals ! i) = Fin 0)
                              [0 ..< length signals])
      \<and> RSP_Expiration_Onsets c
          = map int (filter (\<lambda>i. RSP_Phase (signals ! i) = Fin 0
                                  \<and> RSP_Phase_Completion (signals ! i) = Fin 0)
                            [0 ..< length signals])
      \<and> RSP_Cycles_Length c = map (\<lambda>j. onsets ! (j + 1) - onsets ! j) [0 ..< length onsets - 1]
      \<and> length (RSP_Cycles_Length c) = length onsets - 1
      \<and> (\<forall>d \<in> set (RSP_Cycles_Length c). 0 < d)"
proof -
  let ?on = "map int (filter (\<lambda>i. RSP_Phase (signals ! i) = Fin 1
                                    \<and> RSP_Phase_Completion (signals ! i) = Fin 0)
                              [0 ..< length signals])"
  have on: "RSP_Inspiration_Onsets (hrv_rsa_cycles signals) = ?on"
    by (simp add: hrv_rsa_cycles_def Let_def onsets_eq)
  have ex: "RSP_Expiration_Onsets (hrv_rsa_cycles signals)
          = map int (filter (\<lambda>i. RSP_Phase (signals ! i) = Fin 0
                                  \<and> RSP_Phase_Completion (signals ! i) = Fin 0)
                            [0 ..< length signals])"
    by (simp add: hrv_rsa_cycles_def Let_def onsets_eq)
  have cl: "RSP_Cycles_Length (hrv_rsa_cycles signals) = np_diff ?on"
    by (simp add: hrv_rsa_cycles_def Let_def onsets_eq)
  have st: "sorted_wrt (<) ?on"
    by (simp add: sorted_wrt_map sorted_wrt_filter)
  have pos: "\<forall>d \<in> set (np_diff ?on). 0 < d"
    using np_diff_pos [OF st] by blast
  have len: "length (np_diff ?on) = length ?on - 1"
    by (simp add: np_diff_nth)
  show ?thesis
    unfolding Let_def on ex cl
    using pos len np_diff_nth [of ?on] by blast
qed

theorem hrv_rsa_cycles_correct_witness:
  "hrv_rsa_cycles [\<lparr>RSP_Phase = Fin 1, RSP_Phase_Completion = Fin 0, RSP_Peaks = Fin 0\<rparr>,
     \<lparr>RSP_Phase = Fin 1, RSP_Phase_Completion = Fin (1 / 2), RSP_Peaks = Fin 0\<rparr>,
     \<lparr>RSP_Phase = Fin 0, RSP_Phase_Completion = Fin 0, RSP_Peaks = Fin 0\<rparr>,
     \<lparr>RSP_Phase = Fin 1, RSP_Phase_Completion = Fin 0, RSP_Peaks = Fin 0\<rparr>,
     \<lparr>RSP_Phase = NaN, RSP_Phase_Completion = Fin 0, RSP_Peaks = Fin 0\<rparr>]
   = \<lparr>RSP_Inspiration_Onsets = [0, 3], RSP_Expiration_Onsets = [2], RSP_Cycles_Length = [3]\<rparr>"
  using hrv_rsa_cycles_correct [of "[\<lparr>RSP_Phase = Fin 1, RSP_Phase_Completion = Fin 0, RSP_Peaks = Fin 0\<rparr>,
     \<lparr>RSP_Phase = Fin 1, RSP_Phase_Completion = Fin (1 / 2), RSP_Peaks = Fin 0\<rparr>,
     \<lparr>RSP_Phase = Fin 0, RSP_Phase_Completion = Fin 0, RSP_Peaks = Fin 0\<rparr>,
     \<lparr>RSP_Phase = Fin 1, RSP_Phase_Completion = Fin 0, RSP_Peaks = Fin 0\<rparr>,
     \<lparr>RSP_Phase = NaN, RSP_Phase_Completion = Fin 0, RSP_Peaks = Fin 0\<rparr>]"]
  by (cases "hrv_rsa_cycles [\<lparr>RSP_Phase = Fin 1, RSP_Phase_Completion = Fin 0, RSP_Peaks = Fin 0\<rparr>,
     \<lparr>RSP_Phase = Fin 1, RSP_Phase_Completion = Fin (1 / 2), RSP_Peaks = Fin 0\<rparr>,
     \<lparr>RSP_Phase = Fin 0, RSP_Phase_Completion = Fin 0, RSP_Peaks = Fin 0\<rparr>,
     \<lparr>RSP_Phase = Fin 1, RSP_Phase_Completion = Fin 0, RSP_Peaks = Fin 0\<rparr>,
     \<lparr>RSP_Phase = NaN, RSP_Phase_Completion = Fin 0, RSP_Peaks = Fin 0\<rparr>]")
     (simp add: Let_def upt_rec)

section \<open>Properties of the orchestrator\<close>

text \<open>
  The definitions that a run on a concrete recording unfolds.
\<close>

lemmas model_defs = hrv_rsa_def hrv_rsa_peaks_def hrv_rsa_cycles_def hrv_rsa_p2t_def hrv_rsa_pb_def
  hrv_rsa_gates_def hrv_rsa_merge_def get_multipeak_window_def gates_meanRSA_def py_sum_rows_def
  gates_continuous_def np_arange_def np_binop2_def np_binop_def py_take_def np_dot_def np_sort_def np_argsort_def
  pb_aggregate_def pb_variance_def pd_concat_def pd_mean_def pd_var_def pb_epochs_def pb_epoch_index_def
  example_collaborators_def example_signals_def example_row_def example_ecg_period_def two_peaks_signals_def
  rsp_peaks_after_onset_def inconsistent_by_more_than_one_def
  np_intersect1d_def np_where_def fl_eq_def isnan_def np_diff_def np_sum_def np_nanmean_def np_nanvar_def
  np_nanstd_def replace_nan_def count_notnan_def count_null_def p2t_summary_def p2t_values_def p2t_step_def
  p2t_RRis_def p2t_cycles_rri_def dict_set_def bool_index_def fl_sub_def fl_inf_def fl_max_def fl_min_def
  Let_def upt_rec

subsection \<open>The warning about cycles and peaks\<close>

lemma hrv_rsa_warnings:
  assumes "hrv_rsa_peaks signals (RSP_Inspiration_Onsets (hrv_rsa_cycles signals)) = Inr (pk, w)"
  shows "snd (hrv_rsa ext signals ecg_period rpeaks n sr cf window window_number) = w
       \<or> snd (hrv_rsa ext signals ecg_period rpeaks n sr cf window window_number)
           = w @ [ShortRecordingWarning (case window of None \<Rightarrow> 32 | Some w \<Rightarrow> w)]"
  using assms by (simp add: hrv_rsa_def Let_def split: sum.splits prod.splits)

lemma hrv_rsa_peaks_warning:
  assumes "rsp_onsets = RSP_Inspiration_Onsets (hrv_rsa_cycles signals)" "rsp_onsets \<noteq> []"
  shows "\<exists>pk w. hrv_rsa_peaks signals rsp_onsets = Inr (pk, w)
           \<and> (CyclesWarning \<in> set w \<longleftrightarrow>
                length (rsp_peaks_after_onset signals) \<noteq> length rsp_onsets
                \<and> length (rsp_peaks_after_onset signals) + 1 \<noteq> length rsp_onsets)"
proof -
  from assms(2) obtain onset0 rest where c: "rsp_onsets = onset0 # rest"
    by (cases rsp_onsets) auto
  let ?pk = "filter (\<lambda>p. onset0 < p) (np_where (map (\<lambda>r. fl_eq (RSP_Peaks r) (Fin 1)) signals))"
  have eq: "RSP_Inspiration_Onsets (hrv_rsa_cycles signals) = onset0 # rest"
    using assms(1) c by simp
  have pk: "rsp_peaks_after_onset signals = ?pk"
    unfolding rsp_peaks_after_onset_def eq by simp
  show ?thesis
    unfolding pk
    by (cases "?pk = []") (auto simp: hrv_rsa_peaks_def Let_def c)
qed

text \<open>
  Claim C5, as the code has it. Given at least one inspiration onset, the warning about
  cycle onsets and centres is raised exactly when the number of respiration peaks after
  the first onset is neither the number of onsets nor one less: as many peaks as onsets,
  or one peak fewer, raise no warning; every other count does, one peak more than
  onsets included.
\<close>

theorem cycles_warning_iff:
  assumes "RSP_Inspiration_Onsets (hrv_rsa_cycles signals) \<noteq> []"
  shows "CyclesWarning \<in> set (snd (hrv_rsa ext signals ecg_period rpeaks len_ecg_signals
                                   sampling_rate continuous_flag window window_number))
         \<longleftrightarrow> length (rsp_peaks_after_onset signals)
                \<noteq> length (RSP_Inspiration_Onsets (hrv_rsa_cycles signals))
             \<and> length (rsp_peaks_after_onset signals) + 1
                \<noteq> length (RSP_Inspiration_Onsets (hrv_rsa_cycles signals))"
proof -
  obtain pk w where
    p: "hrv_rsa_peaks signals (RSP_Inspiration_Onsets (hrv_rsa_cycles signals)) = Inr (pk, w)"
    and w: "CyclesWarning \<in> set w \<longleftrightarrow>
              length (rsp_peaks_after_onset signals)
                \<noteq> length (RSP_Inspiration_Onsets (hrv_rsa_cycles signals))
              \<and> length (rsp_peaks_after_onset signals) + 1
                \<noteq> length (RSP_Inspiration_Onsets (hrv_rsa_cycles signals))"
    using hrv_rsa_peaks_warning [OF refl assms] by blast
  from hrv_rsa_warnings [OF p, of ext ecg_period rpeaks len_ecg_signals sampling_rate
      continuous_flag window window_number]
  have "CyclesWarning \<in> set (snd (hrv_rsa ext signals ecg_period rpeaks len_ecg_signals
                                   sampling_rate continuous_flag window window_number))
        \<longleftrightarrow> CyclesWarning \<in> set w"
    by auto
  with w show ?thesis by simp
qed

text \<open>
  Claim C5 as it is stated fails: with one onset and two peaks after it the counts
  differ by exactly one, and the warning is raised.
\<close>

theorem cycles_warning_counterexample:
  "\<not> (CyclesWarning \<in> set (snd (hrv_rsa example_collaborators two_peaks_signals
                                   [Fin 800, Fin 810, Fin 790] [0, 2] 3 1 False (Some 2) (Some 4)))
       \<longleftrightarrow> inconsistent_by_more_than_one
             (length (rsp_peaks_after_onset two_peaks_signals))
             (length (RSP_Inspiration_Onsets (hrv_rsa_cycles two_peaks_signals))))"
  by (simp add: model_defs)

theorem cycles_warning_iff_witness:
  "CyclesWarning \<in> set (snd (hrv_rsa example_collaborators two_peaks_signals
                              [Fin 800, Fin 810, Fin 790] [0, 2] 3 1 False (Some 2) (Some 4)))
   \<and> CyclesWarning \<notin> set (snd (hrv_rsa example_collaborators example_signals
                              example_ecg_period [0, 1, 3, 4, 6, 7, 9, 11] 12 1 False (Some 2) (Some 4)))"
proof -
  have a: "RSP_Inspiration_Onsets (hrv_rsa_cycles two_peaks_signals) = [0]"
    by (simp add: model_defs)
  have b: "rsp_peaks_after_onset two_peaks_signals = [1, 2]"
    by (simp add: model_defs)
  have c: "RSP_Inspiration_Onsets (hrv_rsa_cycles example_signals) = [0, 4, 8]"
    by (simp add: model_defs)
  have d: "rsp_peaks_after_onset example_signals = [1, 5, 9]"
    by (simp add: model_defs)
  show ?thesis
    using cycles_warning_iff [of two_peaks_signals example_collaborators
        "[Fin 800, Fin 810, Fin 790]" "[0, 2]" 3 1 False "Some 2" "Some 4"]
      cycles_warning_iff [of example_signals example_collaborators
        example_ecg_period "[0, 1, 3, 4, 6, 7, 9, 11]" 12 1 False "Some 2" "Some 4"]
    by (simp add: a b c d)
qed

subsection \<open>Recordings shorter than the window\<close>

lemma dict_update_PFloat: "dict_update d (PFloat x) = Inl TypeError"
  by simp

lemma hrv_rsa_p2t_summary_dict:
  "hrv_rsa_p2t ext rsp_onsets rpeaks sampling_rate False ecg_period rsp_peaks
     = Inr (PDict (p2t_summary (p2t_values rsp_onsets rpeaks sampling_rate)))"
  by (simp add: hrv_rsa_p2t_def)

lemma pb_aggregate_dict:
  "pb_aggregate z = Inr v \<Longrightarrow> \<exists>x. v = PDict [(''RSA_PorgesBohrer'', PFloat x)]"
  by (auto simp: pb_aggregate_def split: sum.splits)

lemma hrv_rsa_pb_dict:
  "hrv_rsa_pb ext ecg_period sampling_rate False = Inr v
     \<Longrightarrow> \<exists>x. v = PDict [(''RSA_PorgesBohrer'', PFloat x)]"
  by (auto simp: hrv_rsa_pb_def split: sum.splits dest: pb_aggregate_dict)

lemma hrv_rsa_short_summary:
  assumes "hrv_rsa_peaks signals (RSP_Inspiration_Onsets (hrv_rsa_cycles signals)) = Inr (pk, w)"
    and "hrv_rsa_pb ext ecg_period sampling_rate False = Inr rsa_pb"
    and "rpeaks \<noteq> []"
    and "\<not> fl_le (Fin (real_of_int (case window of None \<Rightarrow> 32 | Some x \<Rightarrow> x)))
               (fl_div (Fin (real_of_int (last rpeaks))) (Fin sampling_rate))"
  shows "hrv_rsa ext signals ecg_period rpeaks len_ecg_signals sampling_rate False window
           window_number
         = (Inl TypeError, w @ [ShortRecordingWarning (case window of None \<Rightarrow> 32 | Some x \<Rightarrow> x)])"
proof -
  from hrv_rsa_pb_dict [OF assms(2)] obtain x where
    pb: "rsa_pb = PDict [(''RSA_PorgesBohrer'', PFloat x)]" by blast
  have m: "hrv_rsa_merge False (PDict d) (PDict d') (PFloat y) = Inl TypeError" for d d' y
    by (simp add: hrv_rsa_merge_def)
  show ?thesis
    using assms
    by (simp add: hrv_rsa_def Let_def hrv_rsa_p2t_summary_dict pb m)
qed

lemma hrv_rsa_short_continuous:
  assumes "hrv_rsa_peaks signals (RSP_Inspiration_Onsets (hrv_rsa_cycles signals)) = Inr (pk, w)"
    and "hrv_rsa_p2t ext (RSP_Inspiration_Onsets (hrv_rsa_cycles signals)) rpeaks sampling_rate
           True ecg_period pk = Inr (PArray a)"
    and "rpeaks \<noteq> []"
    and "\<not> fl_le (Fin (real_of_int (case window of None \<Rightarrow> 32 | Some x \<Rightarrow> x)))
               (fl_div (Fin (real_of_int (last rpeaks))) (Fin sampling_rate))"
  shows "hrv_rsa ext signals ecg_period rpeaks len_ecg_signals sampling_rate True window
           window_number
         = (Inr (PFrame [(''RSA_P2T'', a), (''RSA_Gates'', replicate (length a) NaN)]),
            w @ [ShortRecordingWarning (case window of None \<Rightarrow> 32 | Some x \<Rightarrow> x)])"
  using assms
  by (simp add: hrv_rsa_def Let_def hrv_rsa_pb_def hrv_rsa_merge_def)

text \<open>
  Claim C2, at the input where it fails. Let the recording be shorter than the window,
  with at least one inspiration onset and one R-peak. In summary mode, when the
  Porges-Bohrer estimator has returned, \<open>hrv_rsa\<close> raises the warning, sets the Gates
  result to the float NaN and then raises TypeError in \<open>rsa.update(rsa_gates)\<close>: no
  result is returned. In continuous mode, when the peak-to-trough estimator has returned
  a series, \<open>hrv_rsa\<close> raises the warning and returns the table of that series and a
  Gates series of NaN of the same length.
\<close>

theorem short_recording_summary_raises:
  assumes "hrv_rsa_peaks signals (RSP_Inspiration_Onsets (hrv_rsa_cycles signals)) = Inr (pk, w)"
    and "rpeaks \<noteq> []"
    and "\<not> fl_le (Fin (real_of_int (case window of None \<Rightarrow> 32 | Some x \<Rightarrow> x)))
               (fl_div (Fin (real_of_int (last rpeaks))) (Fin sampling_rate))"
  shows "(hrv_rsa_pb ext ecg_period sampling_rate False = Inr rsa_pb \<longrightarrow>
            hrv_rsa ext signals ecg_period rpeaks len_ecg_signals sampling_rate False window
              window_number
            = (Inl TypeError,
               w @ [ShortRecordingWarning (case window of None \<Rightarrow> 32 | Some x \<Rightarrow> x)]))
       \<and> (hrv_rsa_p2t ext (RSP_Inspiration_Onsets (hrv_rsa_cycles signals)) rpeaks sampling_rate
              True ecg_period pk = Inr (PArray a) \<longrightarrow>
            hrv_rsa ext signals ecg_period rpeaks len_ecg_signals sampling_rate True window
              window_number
            = (Inr (PFrame [(''RSA_P2T'', a), (''RSA_Gates'', replicate (length a) NaN)]),
               w @ [ShortRecordingWarning (case window of None \<Rightarrow> 32 | Some x \<Rightarrow> x)]))"
  using hrv_rsa_short_summary [OF assms(1) _ assms(2, 3)]
    hrv_rsa_short_continuous [OF assms(1) _ assms(2, 3)]
  by blast

theorem short_recording_summary_raises_witness:
  "hrv_rsa example_collaborators example_signals example_ecg_period [0, 1, 3, 4, 6, 7, 9, 11] 12 1
     False None None
   = (Inl TypeError, [ShortRecordingWarning 32])
   \<and> hrv_rsa example_collaborators example_signals example_ecg_period [0, 1, 3, 4, 6, 7, 9, 11] 12 1
     True None None
   = (Inr (PFrame
            [(''RSA_P2T'', [Fin 0, Fin 0, Fin 0, Fin 0, Fin 0, Fin 0, Fin 0, Fin 0, Fin 0, Fin 0, Fin 0, Fin 0]),
             (''RSA_Gates'', [NaN, NaN, NaN, NaN, NaN, NaN, NaN, NaN, NaN, NaN, NaN, NaN])]),
      [ShortRecordingWarning 32])"
proof -
  have a: "hrv_rsa_peaks example_signals (RSP_Inspiration_Onsets (hrv_rsa_cycles example_signals))
           = Inr ([1, 5], [])"
    by (simp add: model_defs)
  have b: "hrv_rsa_pb example_collaborators example_ecg_period 1 False
           = Inr (PDict [(''RSA_PorgesBohrer'', PFloat NInf)])"
    by (simp add: model_defs)
  have c: "hrv_rsa_p2t example_collaborators (RSP_Inspiration_Onsets (hrv_rsa_cycles example_signals))
             [0, 1, 3, 4, 6, 7, 9, 11] 1 True example_ecg_period [1, 5]
           = Inr (PArray [Fin 0, Fin 0, Fin 0, Fin 0, Fin 0, Fin 0, Fin 0, Fin 0, Fin 0, Fin 0, Fin 0, Fin 0])"
    by (simp add: model_defs)
  show ?thesis
    using short_recording_summary_raises [OF a, of "[0, 1, 3, 4, 6, 7, 9, 11]" None 1
        example_collaborators example_ecg_period
        "PDict [(''RSA_PorgesBohrer'', PFloat NInf)]" 12 None
        "[Fin 0, Fin 0, Fin 0, Fin 0, Fin 0, Fin 0, Fin 0, Fin 0, Fin 0, Fin 0, Fin 0, Fin 0]"]
    by (simp add: b c numeral_eq_Suc)
qed

subsection \<open>The Gates loop\<close>

lemma gates_loop_index_error:
  "i \<in> set idxs \<Longrightarrow> length multipeak \<le> i
     \<Longrightarrow> \<exists>e. gates_loop ext rri window overlap multipeak weight idxs st = Inl e"
proof (induction idxs arbitrary: st)
  case Nil
  then show ?case by simp
next
  case (Cons j idxs)
  show ?case
  proof (cases "length multipeak \<le> j")
    case True
    then show ?thesis by simp
  next
    case False
    with Cons.prems have "i \<in> set idxs" by auto
    from Cons.IH [OF this Cons.prems(2)] show ?thesis
      by (auto simp: Let_def split: sum.splits prod.splits)
  qed
qed

lemma length_py_take: "0 \<le> k \<Longrightarrow> length (py_take k a) \<le> nat k"
  by (simp add: py_take_def)

lemma get_multipeak_window_columns:
  "get_multipeak_window ext nperseg k = Inr (multipeak, weight) \<Longrightarrow> 0 \<le> k
     \<Longrightarrow> length multipeak \<le> nat k"
  by (auto simp: get_multipeak_window_def Let_def length_py_take split: sum.splits prod.splits if_splits)

lemma hrv_rsa_gates_few_windows:
  assumes "0 \<le> k" "k < 4"
  shows "\<exists>e. hrv_rsa_gates ext len_ecg_signals rpeaks sampling_rate window (Some k) continuous_flag
              = Inl e"
proof (cases "hrv_get_rri ext rpeaks sampling_rate")
  case (Inl e)
  then show ?thesis by (simp add: hrv_rsa_gates_def)
next
  case (Inr p)
  obtain rri0 sr where p: "p = (rri0, sr)" by (cases p)
  show ?thesis
  proof (cases "signal_resample ext rri0 sr 4")
    case (Inl e)
    then show ?thesis using Inr p by (simp add: hrv_rsa_gates_def)
  next
    case rs: (Inr rri)
    show ?thesis
    proof (cases "get_multipeak_window ext (window * 4) k")
      case (Inl e)
      then show ?thesis using Inr p rs by (simp add: hrv_rsa_gates_def)
    next
      case mw: (Inr q)
      obtain multipeak weight where q: "q = (multipeak, weight)" by (cases q)
      from get_multipeak_window_columns [OF mw [unfolded q] assms(1)] assms(2)
      have "length multipeak \<le> 3" by simp
      moreover have "3 \<in> set [0 ..< 4]" by simp
      ultimately obtain e where
        "gates_loop ext rri window ((window - 1) * 4) multipeak weight [0 ..< 4] ([], []) = Inl e"
        using gates_loop_index_error by blast
      then show ?thesis
        using Inr p rs mw q by (simp add: hrv_rsa_gates_def)
    qed
  qed
qed

lemma gates_loop_take:
  "\<forall>i \<in> set idxs. i < n
     \<Longrightarrow> gates_loop ext rri window overlap (take n multipeak) (take n weight) idxs st
         = gates_loop ext rri window overlap multipeak weight idxs st"
proof (induction idxs arbitrary: st)
  case Nil
  then show ?case by simp
next
  case (Cons j idxs)
  then have j: "j < n" and r: "\<forall>i \<in> set idxs. i < n" by auto
  have c1: "(length (take n multipeak) \<le> j) = (length multipeak \<le> j)"
    and c2: "(length (take n weight) \<le> j) = (length weight \<le> j)"
    using j by auto
  have n1: "take n multipeak ! j = multipeak ! j" and n2: "take n weight ! j = weight ! j"
    using j by simp_all
  show ?case
    unfolding gates_loop.simps c1 c2 n1 n2
    by (simp add: Cons.IH [OF r] Let_def split: sum.splits prod.splits)
qed

text \<open>
  Claim C1, at the inputs where it fails. The loop of the Gates estimator runs over
  \<open>range(4)\<close> whatever \<open>window_number\<close> is: its result is the same when all windows
  and weights after the fourth are dropped, and with a \<open>window_number\<close> from 0 to 3
  the estimator raises (IndexError, when the collaborators return, at the first index
  that is not a column of the window set).
\<close>

theorem gates_uses_four_windows:
  "gates_loop ext rri window overlap multipeak weight [0 ..< 4] st
     = gates_loop ext rri window overlap (take 4 multipeak) (take 4 weight) [0 ..< 4] st
   \<and> (0 \<le> k \<and> k < 4 \<longrightarrow>
        (\<exists>e. hrv_rsa_gates ext len_ecg_signals rpeaks sampling_rate window' (Some k) continuous_flag
               = Inl e))"
proof -
  have "\<forall>i \<in> set [0 ..< 4]. i < (4::nat)" by simp
  from gates_loop_take [OF this] show ?thesis
    using hrv_rsa_gates_few_windows by simp
qed

text \<open>
  On the concrete recording with a window of 2 s and \<open>window_number = 2\<close> the estimator
  raises IndexError. With a window of 3 s and the default \<open>window_number\<close> of 8 the
  window set has eight windows whose weights sum to 1, but the loop adds only the first
  four: the accumulated power of the stand-in spectrogram (1 for every window) is
  \<open>21 / 34\<close>, where a loop over all eight windows gives 1.
\<close>

theorem gates_uses_four_windows_witness:
  "hrv_rsa_gates example_collaborators 12 [0, 1, 3, 4, 6, 7, 9, 11] 1 2 (Some 2) False
     = Inl IndexError
   \<and> (\<exists>multipeak weight.
         get_multipeak_window example_collaborators 12 8 = Inr (multipeak, weight)
         \<and> length multipeak = 8 \<and> np_sum weight = Fin 1
         \<and> gates_loop example_collaborators [] 3 8 multipeak weight [0 ..< 4] ([], [])
             = Inr ([Fin 0], [[Fin (21 / 34)]])
         \<and> gates_loop example_collaborators [] 3 8 multipeak weight [0 ..< 8] ([], [])
             = Inr ([Fin 0], [[Fin 1]]))"
proof -
  have a: "hrv_rsa_gates example_collaborators 12 [0, 1, 3, 4, 6, 7, 9, 11] 1 2 (Some 2) False
           = Inl IndexError"
    using gates_uses_four_windows [of example_collaborators "[]" 2 4 "[]" "[]" "([], [])" 2 12
        "[0, 1, 3, 4, 6, 7, 9, 11]" 1 2 False]
    by (simp add: model_defs)
  have b: "get_multipeak_window example_collaborators 12 8
           = Inr (map (\<lambda>j. map (\<lambda>i. if i = j then Fin 1 else Fin 0) [0 ..< 12])
                      [11, 10, 9, 8, 7, 6, 5, 4],
                  [Fin (3 / 17), Fin (11 / 68), Fin (5 / 34), Fin (9 / 68),
                   Fin (2 / 17), Fin (7 / 68), Fin (3 / 34), Fin (5 / 68)])"
    by (simp add: model_defs)
  show ?thesis
    unfolding b using a by (simp add: model_defs)
qed

subsection \<open>The keys of the summary\<close>

lemma hrv_rsa_gates_summary_dict:
  assumes "hrv_rsa_gates ext len_ecg_signals rpeaks sampling_rate window window_number False = Inr g"
  shows "\<exists>a b c. g = PDict [(''RSA_Gates_Mean'', a), (''RSA_Gates_Mean_log'', b),
                             (''RSA_Gates_SD'', c)]"
  using assms
  by (auto simp: hrv_rsa_gates_def Let_def dict_set_def split: sum.splits prod.splits)

lemma p2t_summary_shape:
  "\<exists>a b c d. p2t_summary vals = [(''RSA_P2T_Mean'', a), (''RSA_P2T_Mean_log'', b),
                                   (''RSA_P2T_SD'', c), (''RSA_P2T_NoRSA'', d)]"
  by (simp add: p2t_summary_def dict_set_def)

lemma hrv_rsa_merge_keys:
  assumes "hrv_rsa_merge False
             (PDict [(''RSA_P2T_Mean'', a), (''RSA_P2T_Mean_log'', b), (''RSA_P2T_SD'', c),
                     (''RSA_P2T_NoRSA'', d)])
             (PDict [(''RSA_PorgesBohrer'', x)])
             (PDict [(''RSA_Gates_Mean'', a'), (''RSA_Gates_Mean_log'', b'), (''RSA_Gates_SD'', c')])
           = Inr v"
  shows "\<exists>d. v = PDict d
           \<and> set (map fst d) = {''RSA_P2T_Mean'', ''RSA_P2T_Mean_log'', ''RSA_P2T_SD'',
                ''RSA_P2T_NoRSA'', ''RSA_PorgesBohrer'', ''RSA_Gates_Mean'',
                ''RSA_Gates_Mean_log'', ''RSA_Gates_SD''}"
  using assms by (auto simp: hrv_rsa_merge_def dict_set_def)

lemma hrv_rsa_summary_returns_keys:
  assumes "hrv_rsa ext signals ecg_period rpeaks len_ecg_signals sampling_rate False window
             window_number = (Inr v, w)"
  shows "\<exists>d. v = PDict d
           \<and> set (map fst d) = {''RSA_P2T_Mean'', ''RSA_P2T_Mean_log'', ''RSA_P2T_SD'',
                ''RSA_P2T_NoRSA'', ''RSA_PorgesBohrer'', ''RSA_Gates_Mean'',
                ''RSA_Gates_Mean_log'', ''RSA_Gates_SD''}"
proof -
  let ?on = "RSP_Inspiration_Onsets (hrv_rsa_cycles signals)"
  let ?win = "case window of None \<Rightarrow> 32 | Some x \<Rightarrow> x"
  obtain a b c d where p2t: "p2t_summary (p2t_values ?on rpeaks sampling_rate)
      = [(''RSA_P2T_Mean'', a), (''RSA_P2T_Mean_log'', b), (''RSA_P2T_SD'', c), (''RSA_P2T_NoRSA'', d)]"
    using p2t_summary_shape by blast
  from assms obtain pk w0 where pk: "hrv_rsa_peaks signals ?on = Inr (pk, w0)"
    by (cases "hrv_rsa_peaks signals ?on") (auto simp: hrv_rsa_def Let_def)
  from assms pk obtain rsa_pb where pb: "hrv_rsa_pb ext ecg_period sampling_rate False = Inr rsa_pb"
    by (cases "hrv_rsa_pb ext ecg_period sampling_rate False")
       (auto simp: hrv_rsa_def Let_def hrv_rsa_p2t_summary_dict)
  from hrv_rsa_pb_dict [OF pb] obtain x where x: "rsa_pb = PDict [(''RSA_PorgesBohrer'', PFloat x)]"
    by blast
  have ne: "rpeaks \<noteq> []"
    using assms pk pb by (auto simp: hrv_rsa_def Let_def hrv_rsa_p2t_summary_dict)
  have long: "fl_le (Fin (real_of_int ?win)) (fl_div (Fin (real_of_int (last rpeaks))) (Fin sampling_rate))"
  proof (rule ccontr)
    assume "\<not> ?thesis"
    from hrv_rsa_short_summary [OF pk pb ne this] assms show False by simp
  qed
  from assms pk pb ne long obtain g where
    g: "hrv_rsa_gates ext len_ecg_signals rpeaks sampling_rate ?win window_number False = Inr g"
    and m: "hrv_rsa_merge False (PDict (p2t_summary (p2t_values ?on rpeaks sampling_rate))) rsa_pb g
            = Inr v"
    by (cases "hrv_rsa_gates ext len_ecg_signals rpeaks sampling_rate ?win window_number False")
       (auto simp: hrv_rsa_def Let_def hrv_rsa_p2t_summary_dict)
  from hrv_rsa_gates_summary_dict [OF g] obtain a' b' c' where
    "g = PDict [(''RSA_Gates_Mean'', a'), (''RSA_Gates_Mean_log'', b'), (''RSA_Gates_SD'', c')]"
    by blast
  with m show ?thesis
    unfolding p2t x by (intro hrv_rsa_merge_keys) simp
qed


text \<open>
  Claim C3, at the input where it fails. In summary mode, with a recording at least as
  long as the window, \<open>hrv_rsa\<close> raises when \<open>window_number\<close> is 2 or 3 (any value
  from 0 to 3); and whenever it returns, the result is a dictionary whose keys are
  exactly the eight named ones.
\<close>

theorem summary_mode_keys:
  "(0 \<le> k \<and> k < 4 \<and> rpeaks \<noteq> []
      \<and> fl_le (Fin (real_of_int (case window of None \<Rightarrow> 32 | Some x \<Rightarrow> x)))
               (fl_div (Fin (real_of_int (last rpeaks))) (Fin sampling_rate))
      \<longrightarrow> (\<exists>e. fst (hrv_rsa ext signals ecg_period rpeaks len_ecg_signals sampling_rate False
                         window (Some k)) = Inl e))
   \<and> (hrv_rsa ext signals ecg_period rpeaks len_ecg_signals sampling_rate False window
          window_number = (Inr v, w)
        \<longrightarrow> (\<exists>d. v = PDict d
               \<and> set (map fst d) = {''RSA_P2T_Mean'', ''RSA_P2T_Mean_log'', ''RSA_P2T_SD'',
                    ''RSA_P2T_NoRSA'', ''RSA_PorgesBohrer'', ''RSA_Gates_Mean'',
                    ''RSA_Gates_Mean_log'', ''RSA_Gates_SD''}))"
proof (intro conjI impI)
  assume a: "0 \<le> k \<and> k < 4 \<and> rpeaks \<noteq> []
      \<and> fl_le (Fin (real_of_int (case window of None \<Rightarrow> 32 | Some x \<Rightarrow> x)))
               (fl_div (Fin (real_of_int (last rpeaks))) (Fin sampling_rate))"
  then obtain e where
    "hrv_rsa_gates ext len_ecg_signals rpeaks sampling_rate
       (case window of None \<Rightarrow> 32 | Some x \<Rightarrow> x) (Some k) False = Inl e"
    using hrv_rsa_gates_few_windows by blast
  with a show "\<exists>e. fst (hrv_rsa ext signals ecg_period rpeaks len_ecg_signals sampling_rate False
                         window (Some k)) = Inl e"
    by (auto simp: hrv_rsa_def Let_def split: sum.splits prod.splits)
next
  assume "hrv_rsa ext signals ecg_period rpeaks len_ecg_signals sampling_rate False window
          window_number = (Inr v, w)"
  then show "\<exists>d. v = PDict d
               \<and> set (map fst d) = {''RSA_P2T_Mean'', ''RSA_P2T_Mean_log'', ''RSA_P2T_SD'',
                    ''RSA_P2T_NoRSA'', ''RSA_PorgesBohrer'', ''RSA_Gates_Mean'',
                    ''RSA_Gates_Mean_log'', ''RSA_Gates_SD''}"
    by (rule hrv_rsa_summary_returns_keys)
qed

theorem summary_mode_keys_witness:
  "fst (hrv_rsa example_collaborators example_signals example_ecg_period
          [0, 1, 3, 4, 6, 7, 9, 11] 12 1 False (Some 2) (Some 2)) = Inl IndexError
   \<and> (\<exists>d. fst (hrv_rsa example_collaborators example_signals example_ecg_period
                   [0, 1, 3, 4, 6, 7, 9, 11] 12 1 False (Some 2) (Some 4)) = Inr (PDict d)
          \<and> set (map fst d) = {''RSA_P2T_Mean'', ''RSA_P2T_Mean_log'', ''RSA_P2T_SD'',
               ''RSA_P2T_NoRSA'', ''RSA_PorgesBohrer'', ''RSA_Gates_Mean'',
               ''RSA_Gates_Mean_log'', ''RSA_Gates_SD''})"
proof -
  have a: "hrv_rsa example_collaborators example_signals example_ecg_period
             [0, 1, 3, 4, 6, 7, 9, 11] 12 1 False (Some 2) (Some 2) = (Inl IndexError, [])"
    by (simp add: model_defs)
  have b: "hrv_rsa example_collaborators example_signals example_ecg_period
             [0, 1, 3, 4, 6, 7, 9, 11] 12 1 False (Some 2) (Some 4)
           = (Inr (PDict
               [(''RSA_P2T_Mean'', PFloat (Fin 1)),
                (''RSA_P2T_Mean_log'', PFloat (Fin 0)),
                (''RSA_P2T_SD'', PFloat (Fin 0)), (''RSA_P2T_NoRSA'', PInt 0),
                (''RSA_PorgesBohrer'', PFloat NInf),
                (''RSA_Gates_Mean'', PFloat (Fin (ln (1 / 4)))),
                (''RSA_Gates_Mean_log'', PFloat NaN),
                (''RSA_Gates_SD'', PFloat NaN)]), [])"
    by (simp add: model_defs)
  show ?thesis
    using summary_mode_keys [of 2 "[0, 1, 3, 4, 6, 7, 9, 11]" "Some 2" 1 example_collaborators
        example_signals example_ecg_period 12 "Some 4" _ "[]"]
    by (simp add: a b)
qed

subsection \<open>Porges-Bohrer estimator\<close>

text \<open>
  The epoch index of sample \<open>i\<close> is \<open>i div 60\<close>, and every epoch that is read holds
  a sample: \<open>time.loc[i]\<close> never fails to find a row.
\<close>

lemma pb_epoch_index_div: "pb_epoch_index i = int (i div 60)"
proof -
  have "real i / 2 / 30 = real i / real 60" by simp
  then show ?thesis
    unfolding pb_epoch_index_def by (simp only: floor_divide_of_nat_eq)
qed

lemma pb_epochs_nonempty:
  assumes "pb_epochs z = Inr epochs" "epoch \<in> set epochs"
  shows "epoch \<noteq> []"
proof -
  let ?idx = "map pb_epoch_index [0 ..< length z]"
  from assms(1) have ne: "?idx \<noteq> []" and
    ep: "epochs = map (\<lambda>i. map snd (filter (\<lambda>(k, v). k = i) (zip ?idx z)))
                      (map int [0 ..< nat (Max (set ?idx) + 1)])"
    by (auto simp: pb_epochs_def Let_def split: if_splits)
  from assms(2) ep obtain e where e: "e < nat (Max (set ?idx) + 1)"
    and epoch: "epoch = map snd (filter (\<lambda>(k, v). k = int e) (zip ?idx z))"
    by auto
  have "Max (set ?idx) \<in> set ?idx" using ne by (intro Max_in) auto
  then obtain j where j: "j < length z" "Max (set ?idx) = int (j div 60)"
    by (auto simp: pb_epoch_index_div)
  with e have "e \<le> j div 60" by simp
  then have "60 * e \<le> j" by simp
  with j have lt: "60 * e < length z" by simp
  have "(pb_epoch_index (60 * e), z ! (60 * e)) \<in> set (zip ?idx z)"
    using lt by (auto simp: set_zip intro!: exI [of _ "60 * e"])
  moreover have "pb_epoch_index (60 * e) = int e"
    by (simp add: pb_epoch_index_div)
  ultimately have "z ! (60 * e) \<in> set epoch"
    unfolding epoch by force
  then show ?thesis by auto
qed

text \<open>
  Claim C9, at the input where it fails. When the collaborators return and every epoch
  of the filtered series is discarded (or there is no epoch), the estimator raises
  ValueError, from \<open>pd.concat\<close> of an empty list (or from \<open>np.max\<close> of an empty
  series): no NaN aggregate is returned.
\<close>

theorem pb_all_epochs_discarded:
  assumes "signal_resample ext ecg_period sampling_rate 2 = Inr resampled"
    and "signal_filter ext resampled 2
           \<lparr>lowcut = Some (95 / 1000), highcut = None, filter_method = Some ''savgol'',
            order = Some 3, window_size = Some 21\<rparr> = Inr trend"
    and "np_binop fl_sub resampled trend = Inr zero_mean"
    and "signal_filter ext zero_mean 2
           \<lparr>lowcut = Some (12 / 100), highcut = Some (40 / 100),
            filter_method = None, order = None, window_size = None\<rparr> = Inr zero_mean_filtered"
    and "\<forall>epochs. pb_epochs zero_mean_filtered = Inr epochs \<longrightarrow>
           (\<forall>epoch \<in> set epochs. isnan (fl_log (fl_div (pd_var epoch) (Fin 1000))))"
  shows "hrv_rsa_pb ext ecg_period sampling_rate False = Inl ValueError"
proof -
  have "pb_aggregate zero_mean_filtered = Inl ValueError"
  proof (cases "pb_epochs zero_mean_filtered")
    case (Inl e)
    then have "e = ValueError"
      by (auto simp: pb_epochs_def Let_def split: if_splits)
    with Inl show ?thesis by (simp add: pb_aggregate_def)
  next
    case (Inr epochs)
    with assms(5) have "pb_variance epochs = []"
      by (auto simp: pb_variance_def filter_empty_conv)
    with Inr show ?thesis by (simp add: pb_aggregate_def pd_concat_def)
  qed
  with assms(1-4) show ?thesis
    by (simp add: hrv_rsa_pb_def)
qed

theorem pb_all_epochs_discarded_witness:
  "hrv_rsa_pb example_collaborators [NaN, NaN, NaN] 100 False = Inl ValueError"
proof -
  have e: "pb_epochs [NaN, NaN, NaN] = Inr [[NaN, NaN, NaN]]"
    by (simp add: model_defs)
  show ?thesis
    using pb_all_epochs_discarded [of example_collaborators "[NaN, NaN, NaN]" 100
        "[NaN, NaN, NaN]" "[NaN, NaN, NaN]" "[NaN, NaN, NaN]" "[NaN, NaN, NaN]"]
    by (simp add: e) (simp add: model_defs)
qed

section \<open>Properties of the multipeak window generator\<close>

lemma np_sum_Fin: "np_sum (map Fin rs) = Fin (sum_list rs)"
  by (induction rs) (simp_all add: np_sum_def)

lemma np_dot_Fin: "np_dot (map Fin xs) (map Fin xs) = Fin (sum_list (map (\<lambda>x. x * x) xs))"
proof -
  have "map (\<lambda>(x, y). fl_mul x y) (zip (map Fin xs) (map Fin xs)) = map Fin (map (\<lambda>x. x * x) xs)"
    by (induction xs) simp_all
  then show ?thesis
    unfolding np_dot_def by (simp only: np_sum_Fin)
qed

lemma sum_squares_pos:
  assumes "\<exists>x \<in> set xs. x \<noteq> (0::real)"
  shows "0 < sum_list (map (\<lambda>x. x * x) xs)"
  using assms
proof (induction xs)
  case Nil
  then show ?case by simp
next
  case (Cons a xs)
  have nn: "0 \<le> sum_list (map (\<lambda>x. x * x) xs)"
    by (rule sum_list_nonneg) auto
  show ?case
  proof (cases "a = 0")
    case True
    with Cons show ?thesis by auto
  next
    case False
    then have "0 < a * a" by (cases "0 < a") (auto simp: zero_less_mult_iff)
    with nn show ?thesis by simp
  qed
qed

lemma sum_list_divide: "sum_list (map (\<lambda>x. f x / (s::real)) xs) = sum_list (map f xs) / s"
  by (induction xs) (simp_all add: add_divide_distrib)

text \<open>A finite non-zero column divided by its Euclidean norm.\<close>

lemma normalise_unit:
  assumes "\<exists>x \<in> set xs. x \<noteq> 0"
  defines "col \<equiv> map Fin xs"
  defines "c \<equiv> map (\<lambda>x. fl_div x (fl_sqrt (np_dot col col))) col"
  shows "length c = length xs" and "np_dot c c = Fin 1" and "fl_sqrt (np_dot c c) = Fin 1"
proof -
  let ?s = "sum_list (map (\<lambda>x. x * x) xs)"
  have s: "0 < ?s" using assms(1) by (rule sum_squares_pos)
  then have q: "sqrt ?s \<noteq> 0" "0 \<le> ?s" by simp_all
  have c: "c = map Fin (map (\<lambda>x. x / sqrt ?s) xs)"
    using s q by (simp add: c_def col_def np_dot_Fin)
  show "length c = length xs" by (simp add: c)
  have "sqrt ?s * sqrt ?s = ?s"
    using q(2) by simp
  then have "(x / sqrt ?s) * (x / sqrt ?s) = x * x / ?s" for x
    by simp
  then have "map (\<lambda>x. x * x) (map (\<lambda>x. x / sqrt ?s) xs) = map (\<lambda>x. x * x / ?s) xs"
    by (simp add: comp_def)
  then have "sum_list (map (\<lambda>x. x * x) (map (\<lambda>x. x / sqrt ?s) xs)) = ?s / ?s"
    by (simp only: sum_list_divide)
  with s show "np_dot c c = Fin 1"
    unfolding c np_dot_Fin by simp
  then show "fl_sqrt (np_dot c c) = Fin 1" by simp
qed

lemma weights_sum:
  assumes "rs \<noteq> []" "\<forall>r \<in> set rs. 0 < (r::real)"
  defines "w \<equiv> map (\<lambda>x. fl_div x (np_sum (map Fin rs))) (map Fin rs)"
  shows "length w = length rs" and "np_sum w = Fin 1"
proof -
  have "0 < sum_list rs"
    using assms(1,2) by (induction rs) (auto intro: add_pos_nonneg sum_list_nonneg less_imp_le)
  then have s: "sum_list rs \<noteq> 0" by simp
  have w: "w = map Fin (map (\<lambda>r. r / sum_list rs) rs)"
    using s by (simp add: w_def np_sum_Fin)
  show "length w = length rs" by (simp add: w)
  show "np_sum w = Fin 1"
    unfolding w np_sum_Fin using s sum_list_divide [of "\<lambda>r. r" "sum_list rs" rs] by simp
qed

lemma np_argsort_set: "set (np_argsort a) = {0 ..< length a}" and
  np_argsort_length: "length (np_argsort a) = length a"
  by (simp_all add: np_argsort_def image_image[symmetric] del: image_image)
     (simp add: set_map [symmetric] del: set_map)

lemma all_Fin_pos:
  "\<forall>x \<in> set l. \<exists>r. x = Fin r \<and> 0 < r \<Longrightarrow> \<exists>rs. l = map Fin rs \<and> (\<forall>r \<in> set rs. 0 < r)"
proof (induction l)
  case Nil
  then show ?case by simp
next
  case (Cons x l)
  then obtain r rs where "x = Fin r" "0 < r" "l = map Fin rs" "\<forall>r \<in> set rs. 0 < r"
    by auto
  then have "x # l = map Fin (r # rs) \<and> (\<forall>a \<in> set (r # rs). 0 < a)" by simp
  then show ?case by (rule exI [of _ "r # rs"])
qed

lemma set_rev_tl: "set (rev (tl l)) \<subseteq> set l"
  by (cases l) auto

lemma set_py_take: "set (py_take k l) \<subseteq> set l"
  by (auto simp: py_take_def dest: in_set_takeD)

lemma get_multipeak_window_unit:
  assumes eig: "peak_matched_eig ext nperseg k = Inr (map (map Fin) Fr, map Fin rd)"
    and n: "int (length rd) = nperseg"
    and lF: "length Fr = length rd"
    and cols: "\<forall>c \<in> set Fr. length c = length rd \<and> (\<exists>x \<in> set c. x \<noteq> 0)"
    and pos: "\<forall>r \<in> set rd. 0 < r"
    and k: "0 < k" "nat k < length rd"
  shows "\<exists>multipeak weight.
           get_multipeak_window ext nperseg k = Inr (multipeak, weight)
           \<and> length multipeak = nat k
           \<and> (\<forall>c \<in> set multipeak. length c = length rd \<and> fl_sqrt (np_dot c c) = Fin 1)
           \<and> length weight = nat k
           \<and> np_sum weight = Fin 1"
proof -
  let ?F = "map (map Fin) Fr" and ?RD = "map Fin rd"
  let ?h = "np_argsort ?RD"
  let ?norm = "\<lambda>col. map (\<lambda>x. fl_div x (fl_sqrt (np_dot col col))) col"
  let ?FN = "map (\<lambda>i. ?norm (?F ! (?h ! i))) [0 ..< length ?RD]"
  let ?RDN = "rev (tl (np_sort ?RD))"
  let ?top = "py_take k ?RDN"
  let ?weight = "map (\<lambda>x. fl_div x (np_sum ?top)) ?top"
  let ?multipeak = "py_take k (rev (tl ?FN))"
  have guard: "\<not> (int (length ?RD) \<noteq> nperseg \<or> length ?F \<noteq> length ?RD
                   \<or> list_ex (\<lambda>col. length col \<noteq> length ?RD) ?F)"
    using n lF cols by (auto simp: list_ex_iff)
  have res: "get_multipeak_window ext nperseg k = Inr (?multipeak, ?weight)"
    unfolding get_multipeak_window_def eig using guard
    by (simp only: sum.case prod.case if_False Let_def)
  \<comment> \<open>the columns\<close>
  have FN: "length c = length rd \<and> fl_sqrt (np_dot c c) = Fin 1" if "c \<in> set ?FN" for c
  proof -
    from that obtain i where i: "i < length rd" and c: "c = ?norm (?F ! (?h ! i))"
      by auto
    have "?h ! i \<in> set ?h"
      using i by (simp add: np_argsort_length)
    then have hi: "?h ! i < length rd"
      by (simp add: np_argsort_set)
    then have col: "?F ! (?h ! i) = map Fin (Fr ! (?h ! i))" and mem: "Fr ! (?h ! i) \<in> set Fr"
      using lF by simp_all
    from mem cols have len: "length (Fr ! (?h ! i)) = length rd"
      and nz: "\<exists>x \<in> set (Fr ! (?h ! i)). x \<noteq> 0" by auto
    from normalise_unit(1,3) [OF nz] len show ?thesis
      unfolding c col by simp
  qed
  have lenFN: "length (rev (tl ?FN)) = length rd - 1" by simp
  have mp_len: "length ?multipeak = nat k"
    using k by (simp add: py_take_def)
  have mp_cols: "length c = length rd \<and> fl_sqrt (np_dot c c) = Fin 1" if "c \<in> set ?multipeak" for c
  proof -
    from that have "c \<in> set (rev (tl ?FN))" by (rule subsetD [OF set_py_take])
    then have "c \<in> set ?FN" by (rule subsetD [OF set_rev_tl])
    then show ?thesis by (rule FN)
  qed
  \<comment> \<open>the weights\<close>
  have "set ?top \<subseteq> set (np_sort ?RD)"
    by (rule subset_trans [OF set_py_take set_rev_tl])
  moreover have "set (np_sort ?RD) = Fin ` set rd" by (simp add: np_sort_def)
  ultimately have sub: "set ?top \<subseteq> Fin ` set rd" by simp
  have "\<forall>x \<in> set ?top. \<exists>r. x = Fin r \<and> 0 < r"
  proof
    fix x assume "x \<in> set ?top"
    with sub obtain r where "r \<in> set rd" "x = Fin r" by blast
    with pos show "\<exists>r. x = Fin r \<and> 0 < r" by blast
  qed
  from all_Fin_pos [OF this] obtain rs where rs: "?top = map Fin rs" and rpos: "\<forall>r \<in> set rs. 0 < r"
    by blast
  have top_len: "length ?top = nat k"
    using k by (simp add: py_take_def np_sort_def)
  have lrs: "length rs = nat k"
    using top_len unfolding rs by simp
  with k have ne: "rs \<noteq> []" by auto
  from weights_sum [OF ne rpos] have "length ?weight = nat k" and "np_sum ?weight = Fin 1"
    unfolding rs using lrs by simp_all
  with res mp_len mp_cols show ?thesis by blast
qed

text \<open>
  Claim C8. For segment length 128 and window count 8, when the linear algebra returns a
  128 by 128 matrix \<open>F\<close> of finite values with no zero column and 128 finite positive
  values \<open>RD\<close>, the generator returns 8 window columns of 128 entries, each of
  Euclidean norm 1, and 8 weights that sum to 1 (in the exact arithmetic of the model).
\<close>

theorem multipeak_window_unit_norm:
  assumes "peak_matched_eig ext 128 8 = Inr (map (map Fin) Fr, map Fin rd)"
    and "length rd = 128"
    and "length Fr = 128"
    and "\<forall>c \<in> set Fr. length c = 128 \<and> (\<exists>x \<in> set c. x \<noteq> 0)"
    and "\<forall>r \<in> set rd. 0 < r"
  shows "\<exists>multipeak weight.
           get_multipeak_window ext 128 8 = Inr (multipeak, weight)
           \<and> length multipeak = 8
           \<and> (\<forall>c \<in> set multipeak. length c = 128 \<and> fl_sqrt (np_dot c c) = Fin 1)
           \<and> length weight = 8
           \<and> np_sum weight = Fin 1"
  using get_multipeak_window_unit [of ext 128 8 Fr rd] assms by simp

theorem multipeak_window_unit_norm_witness:
  "\<exists>multipeak weight.
     get_multipeak_window example_collaborators 128 8 = Inr (multipeak, weight)
     \<and> length multipeak = 8
     \<and> list_all (\<lambda>c. length c = 128 \<and> fl_sqrt (np_dot c c) = Fin 1) multipeak
     \<and> length weight = 8
     \<and> np_sum weight = Fin 1"
proof -
  let ?Fr = "map (\<lambda>j. map (\<lambda>i. if i = j then 1 else 0 :: real) [0 ..< 128]) [0 ..< 128]"
  let ?rd = "map (\<lambda>i. real i + 1) [0 ..< 128]"
  have f: "Fin (if b then 1 else 0) = (if b then Fin 1 else Fin 0)" for b by simp
  have a: "peak_matched_eig example_collaborators 128 8 = Inr (map (map Fin) ?Fr, map Fin ?rd)"
    by (simp add: example_collaborators_def comp_def f)
  have b: "length ?rd = 128" "length ?Fr = 128" by simp_all
  have c: "\<forall>c \<in> set ?Fr. length c = 128 \<and> (\<exists>x \<in> set c. x \<noteq> 0)"
  proof
    fix c assume "c \<in> set ?Fr"
    then obtain j where j: "j < 128" and c: "c = map (\<lambda>i. if i = j then 1 else 0 :: real) [0 ..< 128]"
      by auto
    from j have "(1::real) \<in> set c" unfolding c by (auto simp: image_iff intro!: bexI [of _ j])
    then show "length c = 128 \<and> (\<exists>x \<in> set c. x \<noteq> 0)"
      unfolding c by (auto intro!: bexI [of _ 1])
  qed
  have d: "\<forall>r \<in> set ?rd. 0 < r" by auto
  from multipeak_window_unit_norm [OF a b c d] show ?thesis
    by (simp add: list_all_iff)
qed

end
